theory Spec2Isabelle
  imports Main "HOL-Library.Multiset"
begin

section \<open>Python values, \<open>str()\<close> and \<open>int()\<close>\<close>

text \<open>
  The supplier feed is a list of dictionaries produced by the spreadsheet reader; the
  values stored under a key are not always strings. The embedding covers the value types
  \<open>None\<close>, \<open>bool\<close>, \<open>int\<close> and \<open>str\<close>. Strings are byte strings: a non-ASCII
  character is the sequence of its UTF-8 bytes, all of which are above \<open>0x7F\<close>, so such a
  byte is never a digit, a dot, a sign or ASCII white space. Floating-point values are not
  part of the embedding.
\<close>

datatype pyval = PyNone | PyBool bool | PyInt int | PyStr string

datatype error = ValueError | TypeError | AttributeError | IndexError

definition digit_char :: "nat \<Rightarrow> char" where
  "digit_char d = ''0123456789'' ! d"

function str_of_nat :: "nat \<Rightarrow> string" where
  "str_of_nat n = (if n < 10 then [digit_char n] else str_of_nat (n div 10) @ [digit_char (n mod 10)])"
  by pat_completeness auto
termination
  by (relation "measure (\<lambda>n. n)") auto

declare str_of_nat.simps [simp del]

definition str_of_int :: "int \<Rightarrow> string" where
  "str_of_int i = (if i < 0 then CHR ''-'' # str_of_nat (nat (- i)) else str_of_nat (nat i))"

text \<open>\<open>str(v)\<close>.\<close>

fun py_str :: "pyval \<Rightarrow> string" where
  "py_str PyNone = ''None''"
| "py_str (PyBool b) = (if b then ''True'' else ''False'')"
| "py_str (PyInt i) = str_of_int i"
| "py_str (PyStr s) = s"

definition is_digit :: "char \<Rightarrow> bool" where
  "is_digit c = (c \<in> set ''0123456789'')"

definition digit_val :: "char \<Rightarrow> nat" where
  "digit_val c = of_char c - 48"

definition is_space :: "char \<Rightarrow> bool" where
  "is_space c = (c \<in> set [CHR '' '', CHR 0x09, CHR 0x0A, CHR 0x0B, CHR 0x0C, CHR 0x0D])"

definition strip :: "string \<Rightarrow> string" where
  "strip s = rev (dropWhile is_space (rev (dropWhile is_space s)))"

text \<open>
  The digits of a base-10 literal: a single underscore may stand between two digits.
\<close>

fun parse_body :: "nat \<Rightarrow> string \<Rightarrow> nat option" where
  "parse_body acc [] = Some acc"
| "parse_body acc (c # cs) =
     (if is_digit c then parse_body (10 * acc + digit_val c) cs
      else if c = CHR ''_'' then
        (case cs of [] \<Rightarrow> None
         | d # _ \<Rightarrow> if is_digit d then parse_body acc cs else None)
      else None)"

definition parse_unsigned :: "string \<Rightarrow> nat option" where
  "parse_unsigned s =
     (case s of [] \<Rightarrow> None
      | c # _ \<Rightarrow> if is_digit c then parse_body 0 s else None)"

text \<open>
  \<open>int(s)\<close> for a string \<open>s\<close>: white space around the literal is skipped, one sign is
  allowed, and anything else raises \<open>ValueError\<close>. Two things an interpreter adds are
  left out: the digits and white space outside ASCII, and the configurable limit on the
  number of digits of a decimal literal.
\<close>

definition int_of_str :: "string \<Rightarrow> error + int" where
  "int_of_str s =
     (let t = strip s;
          r = (case t of [] \<Rightarrow> None
               | c # cs \<Rightarrow>
                   if c = CHR ''+'' then map_option int (parse_unsigned cs)
                   else if c = CHR ''-'' then map_option (\<lambda>n. - int n) (parse_unsigned cs)
                   else map_option int (parse_unsigned t))
      in case r of None \<Rightarrow> Inl ValueError | Some i \<Rightarrow> Inr i)"

text \<open>\<open>int(v)\<close>.\<close>

fun py_int :: "pyval \<Rightarrow> error + int" where
  "py_int PyNone = Inl TypeError"
| "py_int (PyBool b) = Inr (if b then 1 else 0)"
| "py_int (PyInt i) = Inr i"
| "py_int (PyStr s) = int_of_str s"

section \<open>Supplier records\<close>

text \<open>
  A supplier record is a dictionary; \<open>watch.get(k)\<close> is \<open>None\<close> for a missing key.
  The three keys are the UTF-8 bytes of the column headers of the feed.
\<close>

type_synonym watch = "string \<rightharpoonup> pyval"

definition py_get :: "watch \<Rightarrow> string \<Rightarrow> pyval" where
  "py_get w k = (case w k of None \<Rightarrow> PyNone | Some v \<Rightarrow> v)"

definition key_code :: string where
  "key_code = [CHR 0xD0, CHR 0x9A, CHR 0xD0, CHR 0xBE, CHR 0xD0, CHR 0xB4]"

definition key_quantity :: string where
  "key_quantity = [CHR 0xD0, CHR 0x9A, CHR 0xD0, CHR 0xBE, CHR 0xD0, CHR 0xBB, CHR 0xD0, CHR 0xB8,
     CHR 0xD1, CHR 0x87, CHR 0xD0, CHR 0xB5, CHR 0xD1, CHR 0x81, CHR 0xD1, CHR 0x82,
     CHR 0xD0, CHR 0xB2, CHR 0xD0, CHR 0xBE]"

definition key_price :: string where
  "key_price = [CHR 0xD0, CHR 0xA6, CHR 0xD0, CHR 0xB5, CHR 0xD0, CHR 0xBD, CHR 0xD0, CHR 0xB0]"

section \<open>Quantity normalisation\<close>

text \<open>
  The body of the matched branch of \<open>create_stocks\<close> (seller.py lines 238-244,
  market.py lines 197-203): the comparisons are made on \<open>str(token)\<close>, the conversion
  \<open>int(...)\<close> is applied to the token itself.
\<close>

definition normalize_quantity :: "pyval \<Rightarrow> error + int" where
  "normalize_quantity token =
     (let count = py_str token
      in if count = ''>10'' then Inr 100
         else if count = ''1'' then Inr 0
         else py_int token)"

section \<open>Price normalisation and batching (seller.py)\<close>

text \<open>\<open>s.split(sep)\<close> for a one-character separator: the result is never empty.\<close>

fun split_on :: "char \<Rightarrow> string \<Rightarrow> string list" where
  "split_on sep [] = [[]]"
| "split_on sep (c # cs) =
     (if c = sep then [] # split_on sep cs
      else (case split_on sep cs of [] \<Rightarrow> [[c]] | p # ps \<Rightarrow> (c # p) # ps))"

text \<open>\<open>re.sub("[^0-9]", "", s)\<close>: every character outside \<open>0\<close>-\<open>9\<close> is deleted.\<close>

definition re_sub_non_digits :: "string \<Rightarrow> string" where
  "re_sub_non_digits s = filter is_digit s"

text \<open>
  \<open>price_conversion(price)\<close> is \<open>re.sub("[^0-9]", "", price.split(".")[0])\<close>. Only a
  string has the method \<open>split\<close>; the index \<open>[0]\<close> raises on an empty list.
\<close>

definition price_conversion :: "pyval \<Rightarrow> error + string" where
  "price_conversion price =
     (case price of
        PyStr s \<Rightarrow>
          (case split_on CHR ''.'' s of
             [] \<Rightarrow> Inl IndexError
           | part # _ \<Rightarrow> Inr (re_sub_non_digits part))
      | _ \<Rightarrow> Inl AttributeError)"

text \<open>
  \<open>divide(lst, n)\<close>, read as \<open>list(divide(lst, n))\<close> the way every caller consumes it:
  the loop variable runs over \<open>range(0, len(lst), n)\<close> and each step yields the slice
  \<open>lst[i: i + n]\<close>. A zero step makes \<open>range\<close> raise, a negative step gives an empty range.
\<close>

function divide_from :: "'a list \<Rightarrow> nat \<Rightarrow> nat \<Rightarrow> 'a list list" where
  "divide_from lst n i =
     (if 0 < n \<and> i < length lst then take n (drop i lst) # divide_from lst n (i + n) else [])"
  by pat_completeness auto
termination
  by (relation "measure (\<lambda>(lst, n, i). length lst - i)") auto

declare divide_from.simps [simp del]

definition divide :: "'a list \<Rightarrow> int \<Rightarrow> error + 'a list list" where
  "divide lst n =
     (if n = 0 then Inl ValueError
      else if n < 0 then Inr []
      else Inr (divide_from lst (nat n) 0))"

section \<open>Reconciliation for Ozon (seller.py)\<close>

record stock_entry =
  offer_id :: string
  stock :: int

record price_entry =
  p_auto_action_enabled :: string
  p_currency_code :: string
  p_offer_id :: string
  p_old_price :: string
  p_price :: string

text \<open>
  \<open>create_stocks\<close> removes entries from the list object it was given, so the model
  returns, next to the result (or the exception), the content of \<open>offer_ids\<close> when the
  call ends. \<open>offer_ids.remove(x)\<close> deletes the first occurrence of \<open>x\<close>; it is only
  reached when \<open>x\<close> is in the list.
\<close>

fun stocks_loop ::
  "watch list \<Rightarrow> stock_entry list \<Rightarrow> string list \<Rightarrow> (error + stock_entry list) \<times> string list" where
  "stocks_loop [] stocks offer_ids = (Inr stocks, offer_ids)"
| "stocks_loop (watch # rest) stocks offer_ids =
     (if py_str (py_get watch key_code) \<in> set offer_ids then
        (case normalize_quantity (py_get watch key_quantity) of
           Inl e \<Rightarrow> (Inl e, offer_ids)
         | Inr qty \<Rightarrow>
             stocks_loop rest
               (stocks @ [\<lparr>offer_id = py_str (py_get watch key_code), stock = qty\<rparr>])
               (remove1 (py_str (py_get watch key_code)) offer_ids))
      else stocks_loop rest stocks offer_ids)"

definition create_stocks ::
  "watch list \<Rightarrow> string list \<Rightarrow> (error + stock_entry list) \<times> string list" where
  "create_stocks watch_remnants offer_ids =
     (case stocks_loop watch_remnants [] offer_ids of
        (Inl e, ids) \<Rightarrow> (Inl e, ids)
      | (Inr stocks, ids) \<Rightarrow>
          (Inr (stocks @ map (\<lambda>oid. \<lparr>offer_id = oid, stock = 0\<rparr>) ids), ids))"

text \<open>\<open>create_prices\<close> only reads \<open>offer_ids\<close>.\<close>

fun prices_loop :: "watch list \<Rightarrow> price_entry list \<Rightarrow> string list \<Rightarrow> error + price_entry list" where
  "prices_loop [] prices offer_ids = Inr prices"
| "prices_loop (watch # rest) prices offer_ids =
     (if py_str (py_get watch key_code) \<in> set offer_ids then
        (case price_conversion (py_get watch key_price) of
           Inl e \<Rightarrow> Inl e
         | Inr digits \<Rightarrow>
             prices_loop rest
               (prices @ [\<lparr>p_auto_action_enabled = ''UNKNOWN'', p_currency_code = ''RUB'',
                           p_offer_id = py_str (py_get watch key_code), p_old_price = ''0'',
                           p_price = digits\<rparr>])
               offer_ids)
      else prices_loop rest prices offer_ids)"

definition create_prices :: "watch list \<Rightarrow> string list \<Rightarrow> error + price_entry list" where
  "create_prices watch_remnants offer_ids = prices_loop watch_remnants [] offer_ids"

text \<open>
  The \<open>try\<close> block of \<open>main\<close>. The fetched identifier list and the downloaded feed are
  the results of the two external calls; the pushes \<open>update_stocks\<close> and \<open>update_price\<close>
  are recorded as the batches they are called with, the transport being taken to succeed.
  The list object bound to \<open>offer_ids\<close> is the one \<open>create_stocks\<close> has worked on.
\<close>

record main_run =
  run_stocks :: "stock_entry list"
  run_stock_batches :: "stock_entry list list"
  run_prices :: "price_entry list"
  run_price_batches :: "price_entry list list"

definition main_body :: "string list \<Rightarrow> watch list \<Rightarrow> error + main_run" where
  "main_body offer_ids watch_remnants =
     (case create_stocks watch_remnants offer_ids of
        (Inl e, _) \<Rightarrow> Inl e
      | (Inr stocks, offer_ids') \<Rightarrow>
          (case divide stocks 100 of
             Inl e \<Rightarrow> Inl e
           | Inr stock_batches \<Rightarrow>
               (case create_prices watch_remnants offer_ids' of
                  Inl e \<Rightarrow> Inl e
                | Inr prices \<Rightarrow>
                    (case divide prices 900 of
                       Inl e \<Rightarrow> Inl e
                     | Inr price_batches \<Rightarrow>
                         Inr \<lparr>run_stocks = stocks, run_stock_batches = stock_batches,
                              run_prices = prices, run_price_batches = price_batches\<rparr>))))"

section \<open>Reconciliation for Yandex Market (market.py)\<close>

record stock_item =
  item_count :: int
  item_type :: string
  updatedAt :: string

record market_stock =
  sku :: string
  warehouseId :: string
  items :: "stock_item list"

record market_price_value =
  price_value :: int
  currencyId :: string

record market_price =
  m_id :: string
  m_price :: market_price_value

text \<open>
  The time stamp is read from the clock once, before the loop; it is a parameter here.
\<close>

fun market_stocks_loop ::
  "watch list \<Rightarrow> market_stock list \<Rightarrow> string list \<Rightarrow> string \<Rightarrow> string \<Rightarrow>
     (error + market_stock list) \<times> string list" where
  "market_stocks_loop [] stocks offer_ids warehouse_id date = (Inr stocks, offer_ids)"
| "market_stocks_loop (watch # rest) stocks offer_ids warehouse_id date =
     (if py_str (py_get watch key_code) \<in> set offer_ids then
        (case normalize_quantity (py_get watch key_quantity) of
           Inl e \<Rightarrow> (Inl e, offer_ids)
         | Inr qty \<Rightarrow>
             market_stocks_loop rest
               (stocks @ [\<lparr>sku = py_str (py_get watch key_code), warehouseId = warehouse_id,
                           items = [\<lparr>item_count = qty, item_type = ''FIT'', updatedAt = date\<rparr>]\<rparr>])
               (remove1 (py_str (py_get watch key_code)) offer_ids) warehouse_id date)
      else market_stocks_loop rest stocks offer_ids warehouse_id date)"

definition market_create_stocks ::
  "watch list \<Rightarrow> string list \<Rightarrow> string \<Rightarrow> string \<Rightarrow> (error + market_stock list) \<times> string list" where
  "market_create_stocks watch_remnants offer_ids warehouse_id date =
     (case market_stocks_loop watch_remnants [] offer_ids warehouse_id date of
        (Inl e, ids) \<Rightarrow> (Inl e, ids)
      | (Inr stocks, ids) \<Rightarrow>
          (Inr (stocks @
                map (\<lambda>oid. \<lparr>sku = oid, warehouseId = warehouse_id,
                       items = [\<lparr>item_count = 0, item_type = ''FIT'', updatedAt = date\<rparr>]\<rparr>) ids),
           ids))"

fun market_prices_loop ::
  "watch list \<Rightarrow> market_price list \<Rightarrow> string list \<Rightarrow> error + market_price list" where
  "market_prices_loop [] prices offer_ids = Inr prices"
| "market_prices_loop (watch # rest) prices offer_ids =
     (if py_str (py_get watch key_code) \<in> set offer_ids then
        (case price_conversion (py_get watch key_price) of
           Inl e \<Rightarrow> Inl e
         | Inr digits \<Rightarrow>
             (case int_of_str digits of
                Inl e \<Rightarrow> Inl e
              | Inr v \<Rightarrow>
                  market_prices_loop rest
                    (prices @ [\<lparr>m_id = py_str (py_get watch key_code),
                                m_price = \<lparr>price_value = v, currencyId = ''RUR''\<rparr>\<rparr>])
                    offer_ids))
      else market_prices_loop rest prices offer_ids)"

definition market_create_prices :: "watch list \<Rightarrow> string list \<Rightarrow> error + market_price list" where
  "market_create_prices watch_remnants offer_ids = market_prices_loop watch_remnants [] offer_ids"

section \<open>Definitions that follow the specification\<close>

text \<open>
  The quantity rule in the words of the specification: the token is coerced to its string
  form \<open>s\<close> first, and all three rules, the integer parse included, look at \<open>s\<close>.
\<close>

definition spec_quantityNormalize :: "string \<Rightarrow> error + int" where
  "spec_quantityNormalize s =
     (if s = ''>10'' then Inr 100
      else if s = ''1'' then Inr 0
      else int_of_str s)"

text \<open>
  A string all of whose characters are ASCII. The integer parse above is the interpreter's
  on such strings; the statements about which string tokens parse are made for them.
\<close>

definition is_ascii :: "string \<Rightarrow> bool" where
  "is_ascii s = list_all (\<lambda>c. (of_char c :: nat) < 128) s"

text \<open>
  The string-coerced SKU of a record, \<open>str(watch.get(key_code))\<close>, and its quantity token.
\<close>

abbreviation sku_of :: "watch \<Rightarrow> string" where
  "sku_of w \<equiv> py_str (py_get w key_code)"

abbreviation quantity_of :: "watch \<Rightarrow> error + int" where
  "quantity_of w \<equiv> normalize_quantity (py_get w key_quantity)"

text \<open>
  The feed rows that are the first row of their SKU, in feed order; the supplier-matched
  rows of a universe are the first rows whose SKU is in the universe; the unmatched
  universe members are those that are the SKU of no feed row, in universe order.
\<close>

fun first_rows :: "watch list \<Rightarrow> watch list" where
  "first_rows [] = []"
| "first_rows (w # ws) = w # filter (\<lambda>v. sku_of v \<noteq> sku_of w) (first_rows ws)"

definition matched_rows :: "watch list \<Rightarrow> string list \<Rightarrow> watch list" where
  "matched_rows S U = filter (\<lambda>w. sku_of w \<in> set U) (first_rows S)"

definition unmatched_ids :: "watch list \<Rightarrow> string list \<Rightarrow> string list" where
  "unmatched_ids S U = filter (\<lambda>u. u \<notin> set (map sku_of S)) U"

text \<open>The update a matched row stands for, in either payload format.\<close>

definition is_stock_of :: "watch \<Rightarrow> stock_entry \<Rightarrow> bool" where
  "is_stock_of w e =
     (case quantity_of w of
        Inl _ \<Rightarrow> False
      | Inr q \<Rightarrow> e = \<lparr>offer_id = sku_of w, stock = q\<rparr>)"

definition to_market_stock :: "string \<Rightarrow> string \<Rightarrow> stock_entry \<Rightarrow> market_stock" where
  "to_market_stock warehouse_id date e =
     \<lparr>sku = offer_id e, warehouseId = warehouse_id,
      items = [\<lparr>item_count = stock e, item_type = ''FIT'', updatedAt = date\<rparr>]\<rparr>"

definition is_market_stock_of :: "string \<Rightarrow> string \<Rightarrow> watch \<Rightarrow> market_stock \<Rightarrow> bool" where
  "is_market_stock_of warehouse_id date w e =
     (case quantity_of w of
        Inl _ \<Rightarrow> False
      | Inr q \<Rightarrow>
          e = \<lparr>sku = sku_of w, warehouseId = warehouse_id,
               items = [\<lparr>item_count = q, item_type = ''FIT'', updatedAt = date\<rparr>]\<rparr>)"

text \<open>The price update a row stands for, in either payload format.\<close>

definition is_price_of :: "watch \<Rightarrow> price_entry \<Rightarrow> bool" where
  "is_price_of w e =
     (case price_conversion (py_get w key_price) of
        Inl _ \<Rightarrow> False
      | Inr digits \<Rightarrow>
          e = \<lparr>p_auto_action_enabled = ''UNKNOWN'', p_currency_code = ''RUB'',
               p_offer_id = sku_of w, p_old_price = ''0'', p_price = digits\<rparr>)"

definition is_market_price_of :: "watch \<Rightarrow> market_price \<Rightarrow> bool" where
  "is_market_price_of w e =
     (case price_conversion (py_get w key_price) of
        Inl _ \<Rightarrow> False
      | Inr digits \<Rightarrow>
          (case int_of_str digits of
             Inl _ \<Rightarrow> False
           | Inr v \<Rightarrow>
               e = \<lparr>m_id = sku_of w, m_price = \<lparr>price_value = v, currencyId = ''RUR''\<rparr>\<rparr>))"

text \<open>The dictionary literal with the three keys of a feed row.\<close>

definition watch_dict :: "pyval \<Rightarrow> pyval \<Rightarrow> pyval \<Rightarrow> watch" where
  "watch_dict code quantity price =
     [key_code \<mapsto> code, key_quantity \<mapsto> quantity, key_price \<mapsto> price]"

section \<open>Quantity normalisation: properties\<close>

lemma digit_cases: "d < 10 \<Longrightarrow> d \<in> {0, 1, 2, 3, 4, 5, 6, 7, 8, 9 :: nat}"
  by auto

lemma digit_char_props:
  assumes "d < 10"
  shows "is_digit (digit_char d)" and "digit_val (digit_char d) = d"
    and "\<not> is_space (digit_char d)" and "digit_char d \<noteq> CHR ''+''" and "digit_char d \<noteq> CHR ''-''"
  using digit_cases [OF assms]
  by (auto simp: is_digit_def digit_char_def digit_val_def is_space_def)

lemma str_of_nat_digits: "c \<in> set (str_of_nat n) \<Longrightarrow> is_digit c"
proof (induction n rule: str_of_nat.induct)
  case (1 n)
  then show ?case
    by (subst (asm) (2) str_of_nat.simps) (auto simp: digit_char_props split: if_splits)
qed

lemma str_of_nat_nonempty: "str_of_nat n \<noteq> []"
  by (subst str_of_nat.simps) simp

lemma str_of_nat_last: "last (str_of_nat n) = digit_char (n mod 10)"
  by (subst str_of_nat.simps) simp

lemma parse_body_append_digit:
  "is_digit d \<Longrightarrow> parse_body acc ds = Some v \<Longrightarrow> \<forall>c \<in> set ds. is_digit c
     \<Longrightarrow> parse_body acc (ds @ [d]) = Some (10 * v + digit_val d)"
  by (induction ds arbitrary: acc) (auto split: if_splits)

lemma parse_body_str_of_nat: "parse_body 0 (str_of_nat n) = Some n"
proof (induction n rule: str_of_nat.induct)
  case (1 n)
  show ?case
  proof (cases "n < 10")
    case True
    then show ?thesis
      by (subst str_of_nat.simps) (simp add: digit_char_props)
  next
    case False
    with 1 have ih: "parse_body 0 (str_of_nat (n div 10)) = Some (n div 10)" by simp
    have "parse_body 0 (str_of_nat (n div 10) @ [digit_char (n mod 10)])
            = Some (10 * (n div 10) + digit_val (digit_char (n mod 10)))"
      by (rule parse_body_append_digit [OF _ ih]) (auto simp: digit_char_props str_of_nat_digits)
    with False show ?thesis
      by (subst str_of_nat.simps) (simp add: digit_char_props)
  qed
qed

lemma parse_unsigned_str_of_nat: "parse_unsigned (str_of_nat n) = Some n"
proof -
  obtain c cs where eq: "str_of_nat n = c # cs"
    using str_of_nat_nonempty [of n] by (cases "str_of_nat n") auto
  then have "is_digit c" using str_of_nat_digits [of c n] by simp
  with eq parse_body_str_of_nat [of n] show ?thesis
    by (simp add: parse_unsigned_def)
qed

lemma strip_id: "s \<noteq> [] \<Longrightarrow> \<not> is_space (hd s) \<Longrightarrow> \<not> is_space (last s) \<Longrightarrow> strip s = s"
proof -
  assume a: "s \<noteq> []" "\<not> is_space (hd s)" "\<not> is_space (last s)"
  then have "dropWhile is_space s = s" by (cases s) auto
  moreover from a have "dropWhile is_space (rev s) = rev s"
    by (cases "rev s") (auto simp: last_rev [symmetric] simp del: last_rev)
  ultimately show ?thesis by (simp add: strip_def)
qed

lemma is_digit_not_space: "is_digit c \<Longrightarrow> \<not> is_space c \<and> c \<noteq> CHR ''+'' \<and> c \<noteq> CHR ''-''"
  by (auto simp: is_digit_def is_space_def)

lemma strip_str_of_nat: "strip (str_of_nat n) = str_of_nat n"
proof (rule strip_id)
  show ne: "str_of_nat n \<noteq> []" by (rule str_of_nat_nonempty)
  then have "hd (str_of_nat n) \<in> set (str_of_nat n)" by simp
  then show "\<not> is_space (hd (str_of_nat n))"
    using str_of_nat_digits is_digit_not_space by blast
  show "\<not> is_space (last (str_of_nat n))"
    by (simp add: str_of_nat_last digit_char_props)
qed

lemma int_of_str_str_of_int: "int_of_str (str_of_int i) = Inr i"
proof (cases "i < 0")
  case True
  have "strip (CHR ''-'' # str_of_nat (nat (- i))) = CHR ''-'' # str_of_nat (nat (- i))"
    by (rule strip_id) (simp_all add: str_of_nat_nonempty str_of_nat_last digit_char_props, simp add: is_space_def)
  with True show ?thesis
    by (simp add: int_of_str_def str_of_int_def parse_unsigned_str_of_nat)
next
  case False
  obtain c cs where eq: "str_of_nat (nat i) = c # cs"
    using str_of_nat_nonempty [of "nat i"] by (cases "str_of_nat (nat i)") auto
  then have "is_digit c" using str_of_nat_digits [of c "nat i"] by simp
  then have "c \<noteq> CHR ''+''" "c \<noteq> CHR ''-''" using is_digit_not_space by blast+
  moreover have "strip (c # cs) = c # cs"
    using strip_str_of_nat [of "nat i"] eq by simp
  moreover have "parse_unsigned (c # cs) = Some (nat i)"
    using parse_unsigned_str_of_nat [of "nat i"] eq by simp
  ultimately show ?thesis
    using False eq by (simp add: int_of_str_def str_of_int_def)
qed

text \<open>
  Claim C3, as amended. For a quantity token that is an ASCII string or an integer, the
  normalised quantity is the one the specification gives for the token's string form:
  100 for \<open>>10\<close>, 0 for \<open>1\<close>, otherwise the base-10 integer parse of the string form,
  where the parse of the decimal form of an integer is that integer. For a token of
  another type the third rule converts the token itself, not its string form: a boolean
  gives 1 or 0, \<open>None\<close> raises \<open>TypeError\<close>. The documented examples hold; surrounding
  white space and a sign are accepted, while the empty string, letters and a decimal
  point raise \<open>ValueError\<close>.
\<close>

theorem normalize_quantity_str_or_int:
  "(is_ascii s \<longrightarrow> normalize_quantity (PyStr s) = spec_quantityNormalize s)
   \<and> normalize_quantity (PyInt i) = spec_quantityNormalize (py_str (PyInt i))
   \<and> int_of_str (py_str (PyInt i)) = Inr i
   \<and> normalize_quantity (PyBool b) = (if b then Inr 1 else Inr 0)
   \<and> normalize_quantity PyNone = Inl TypeError
   \<and> normalize_quantity (PyStr ''>10'') = Inr 100
   \<and> normalize_quantity (PyStr ''1'') = Inr 0
   \<and> normalize_quantity (PyStr ''7'') = Inr 7
   \<and> normalize_quantity (PyStr '' 42 '') = Inr 42
   \<and> normalize_quantity (PyStr ''-3'') = Inr (- 3)
   \<and> normalize_quantity (PyStr '''') = Inl ValueError
   \<and> normalize_quantity (PyStr ''abc'') = Inl ValueError
   \<and> normalize_quantity (PyStr ''5.0'') = Inl ValueError"
proof -
  have "normalize_quantity (PyStr ''7'') = Inr 7"
    by (simp add: normalize_quantity_def int_of_str_def strip_def is_space_def
        parse_unsigned_def is_digit_def digit_val_def)
  moreover have "normalize_quantity (PyStr '' 42 '') = Inr 42"
    by (simp add: normalize_quantity_def int_of_str_def strip_def is_space_def
        parse_unsigned_def is_digit_def digit_val_def)
  moreover have "normalize_quantity (PyStr ''-3'') = Inr (- 3)"
    by (simp add: normalize_quantity_def int_of_str_def strip_def is_space_def
        parse_unsigned_def is_digit_def digit_val_def)
  moreover have "normalize_quantity (PyStr '''') = Inl ValueError"
    by (simp add: normalize_quantity_def int_of_str_def strip_def)
  moreover have "normalize_quantity (PyStr ''abc'') = Inl ValueError"
    by (simp add: normalize_quantity_def int_of_str_def strip_def is_space_def
        parse_unsigned_def is_digit_def)
  moreover have "normalize_quantity (PyStr ''5.0'') = Inl ValueError"
    by (simp add: normalize_quantity_def int_of_str_def strip_def is_space_def
        parse_unsigned_def is_digit_def digit_val_def)
  moreover have "normalize_quantity (PyInt i) = spec_quantityNormalize (py_str (PyInt i))"
  proof -
    have "str_of_int i = ''1'' \<Longrightarrow> i = 1"
    proof -
      assume "str_of_int i = ''1''"
      then have "int_of_str (str_of_int i) = int_of_str ''1''" by simp
      moreover have "int_of_str ''1'' = Inr 1"
        by (simp add: int_of_str_def strip_def is_space_def parse_unsigned_def is_digit_def digit_val_def)
      ultimately show "i = 1" by (simp add: int_of_str_str_of_int)
    qed
    then show ?thesis
      by (auto simp: normalize_quantity_def spec_quantityNormalize_def int_of_str_str_of_int)
  qed
  moreover have "int_of_str (py_str (PyInt i)) = Inr i"
    by (simp add: int_of_str_str_of_int)
  ultimately show ?thesis
    by (simp add: normalize_quantity_def spec_quantityNormalize_def)
qed

theorem normalize_quantity_str_or_int_witness:
  "is_ascii ''12''
   \<and> normalize_quantity (PyStr ''12'') = spec_quantityNormalize ''12''
   \<and> spec_quantityNormalize ''12'' = Inr 12"
proof -
  have a: "is_ascii ''12''" by (simp add: is_ascii_def)
  have v: "spec_quantityNormalize ''12'' = Inr 12"
    by (simp add: spec_quantityNormalize_def int_of_str_def strip_def is_space_def
        parse_unsigned_def is_digit_def digit_val_def)
  from normalize_quantity_str_or_int [of "''12''", THEN conjunct1, rule_format, OF a]
  have "normalize_quantity (PyStr ''12'') = spec_quantityNormalize ''12''" .
  with a v show ?thesis by (intro conjI)
qed

text \<open>
  The claim as stated covers tokens of any type. For the token \<open>True\<close> the string form is
  \<open>True\<close>, whose integer parse fails, while the code returns 1.
\<close>

theorem normalize_quantity_bool_counterexample:
  "normalize_quantity (PyBool True) \<noteq> spec_quantityNormalize (py_str (PyBool True))"
  by (simp add: normalize_quantity_def spec_quantityNormalize_def int_of_str_def strip_def
      is_space_def parse_unsigned_def is_digit_def)

section \<open>Evaluation of concrete inputs\<close>

lemmas eval_defs =
  watch_dict_def py_get_def key_code_def key_quantity_def key_price_def
  normalize_quantity_def int_of_str_def strip_def is_space_def parse_unsigned_def
  is_digit_def digit_val_def price_conversion_def re_sub_non_digits_def

section \<open>Price normalisation: properties\<close>

lemma split_on_first: "\<exists>ps. split_on sep s = takeWhile (\<lambda>c. c \<noteq> sep) s # ps"
  by (induction s) (auto split: list.splits)

lemma price_conversion_str:
  "price_conversion (PyStr p) = Inr (filter is_digit (takeWhile (\<lambda>c. c \<noteq> CHR ''.'') p))"
proof -
  obtain ps where "split_on CHR ''.'' p = takeWhile (\<lambda>c. c \<noteq> CHR ''.'') p # ps"
    using split_on_first by blast
  then show ?thesis
    by (simp add: price_conversion_def re_sub_non_digits_def)
qed

text \<open>
  Claim C5. For every string \<open>p\<close>, \<open>price_conversion(p)\<close> is the part of \<open>p\<close> before its
  first dot with every character other than the ASCII digits removed, and the call does
  not fail. The three documented examples are instances: the price with a thousands mark
  and the currency text gives \<open>5990\<close>, \<open>1234.50\<close> gives \<open>1234\<close> and the empty string
  gives the empty string.
\<close>

theorem price_conversion_digits_before_first_dot:
  "price_conversion (PyStr p) =
     Inr (filter (\<lambda>c. c \<in> set ''0123456789'') (takeWhile (\<lambda>c. c \<noteq> CHR ''.'') p))
   \<and> price_conversion (PyStr [CHR ''5'', CHR 0x27, CHR ''9'', CHR ''9'', CHR ''0'', CHR ''.'',
        CHR ''0'', CHR ''0'', CHR '' '', CHR 0xD1, CHR 0x80, CHR 0xD1, CHR 0x83, CHR 0xD0, CHR 0xB1,
        CHR ''.'']) = Inr ''5990''
   \<and> price_conversion (PyStr ''1234.50'') = Inr ''1234''
   \<and> price_conversion (PyStr '''') = Inr ''''"
proof -
  have "is_digit = (\<lambda>c. c \<in> set ''0123456789'')"
    by (rule ext) (simp add: is_digit_def)
  then show ?thesis
    by (simp add: price_conversion_str) (simp add: is_digit_def)
qed

section \<open>Batching: properties\<close>

lemma divide_from_concat: "0 < n \<Longrightarrow> concat (divide_from lst n i) = drop i lst"
proof (induction lst n i rule: divide_from.induct)
  case (1 lst n i)
  show ?case
  proof (cases "i < length lst")
    case True
    with 1 have "concat (divide_from lst n (i + n)) = drop (i + n) lst" by simp
    moreover have "drop (i + n) lst = drop n (drop i lst)" by (simp add: add.commute)
    ultimately have "take n (drop i lst) @ concat (divide_from lst n (i + n)) = drop i lst"
      by (simp only: append_take_drop_id)
    with True 1 show ?thesis
      by (subst divide_from.simps) simp
  next
    case False
    then show ?thesis by (subst divide_from.simps) simp
  qed
qed

lemma divide_from_chunk_bounds:
  "c \<in> set (divide_from lst n i) \<Longrightarrow> c \<noteq> [] \<and> length c \<le> n"
proof (induction lst n i rule: divide_from.induct)
  case (1 lst n i)
  from "1.prems" have g: "0 < n \<and> i < length lst"
    by (subst (asm) divide_from.simps) (auto split: if_splits)
  with "1.prems" have "c = take n (drop i lst) \<or> c \<in> set (divide_from lst n (i + n))"
    by (subst (asm) divide_from.simps) auto
  then show ?case
  proof
    assume "c = take n (drop i lst)"
    with g show ?thesis by auto
  next
    assume "c \<in> set (divide_from lst n (i + n))"
    with g "1.IH" show ?thesis by blast
  qed
qed

lemma divide_from_full_chunks:
  "c \<in> set (butlast (divide_from lst n i)) \<Longrightarrow> length c = n"
proof (induction lst n i rule: divide_from.induct)
  case (1 lst n i)
  from "1.prems" have g: "0 < n \<and> i < length lst"
    by (subst (asm) divide_from.simps) (auto split: if_splits)
  then have unf: "divide_from lst n i = take n (drop i lst) # divide_from lst n (i + n)"
    by (subst divide_from.simps) simp
  show ?case
  proof (cases "divide_from lst n (i + n) = []")
    case True
    with unf "1.prems" show ?thesis by simp
  next
    case False
    then have "i + n < length lst"
      by (subst (asm) divide_from.simps) (auto split: if_splits)
    moreover from False unf "1.prems"
    have "c = take n (drop i lst) \<or> c \<in> set (butlast (divide_from lst n (i + n)))" by auto
    ultimately show ?thesis using g "1.IH" by auto
  qed
qed

text \<open>
  Claim C7. For every list and every positive chunk size \<open>n\<close>, \<open>divide\<close> returns chunks
  whose concatenation is the list, every chunk but the last has length \<open>n\<close>, no chunk is
  empty or longer than \<open>n\<close>, and the empty list gives no chunk at all. The function is
  modelled as a function of its arguments: the source only reads \<open>lst\<close>.
\<close>

theorem divide_chunks:
  "0 < n \<Longrightarrow>
     (\<exists>chunks. divide lst n = Inr chunks
        \<and> concat chunks = lst
        \<and> (\<forall>c \<in> set (butlast chunks). int (length c) = n)
        \<and> (\<forall>c \<in> set chunks. c \<noteq> [] \<and> int (length c) \<le> n)
        \<and> (lst = [] \<longrightarrow> chunks = []))"
proof -
  assume n: "0 < n"
  let ?chunks = "divide_from lst (nat n) 0"
  from n have pos: "0 < nat n" by simp
  have "divide lst n = Inr ?chunks" using n by (simp add: divide_def)
  moreover have "concat ?chunks = lst" using divide_from_concat [OF pos, of lst 0] by simp
  moreover have "\<forall>c \<in> set (butlast ?chunks). int (length c) = n"
    using divide_from_full_chunks [of _ lst "nat n" 0] n by auto
  moreover have "\<forall>c \<in> set ?chunks. c \<noteq> [] \<and> int (length c) \<le> n"
    using divide_from_chunk_bounds [of _ lst "nat n" 0] n by fastforce
  moreover have "lst = [] \<longrightarrow> ?chunks = []" by (simp add: divide_from.simps)
  ultimately show ?thesis by blast
qed

theorem divide_chunks_witness:
  "(0::int) < 2
   \<and> (\<exists>chunks. divide [1, 2, 3 :: nat] 2 = Inr chunks
        \<and> concat chunks = [1, 2, 3]
        \<and> (\<forall>c \<in> set (butlast chunks). int (length c) = 2)
        \<and> (\<forall>c \<in> set chunks. c \<noteq> [] \<and> int (length c) \<le> 2)
        \<and> ([1, 2, 3 :: nat] = [] \<longrightarrow> chunks = []))
   \<and> divide [1, 2, 3 :: nat] 2 = Inr [[1, 2], [3]]
   \<and> divide [1, 2, 3, 4 :: nat] 2 = Inr [[1, 2], [3, 4]]
   \<and> divide ([] :: nat list) 2 = Inr []"
proof -
  have h: "(0::int) < 2" by simp
  have "divide [1, 2, 3 :: nat] 2 = Inr [[1, 2], [3]]"
    by (simp add: divide_def divide_from.simps)
  moreover have "divide [1, 2, 3, 4 :: nat] 2 = Inr [[1, 2], [3, 4]]"
    by (simp add: divide_def divide_from.simps)
  moreover have "divide ([] :: nat list) 2 = Inr []"
    by (simp add: divide_def divide_from.simps)
  ultimately show ?thesis using h divide_chunks [OF h, of "[1, 2, 3 :: nat]"] by simp
qed
section \<open>Stock reconciliation: properties\<close>

lemma stocks_loop_mset:
  "stocks_loop ws acc ids = (Inr res, ids')
     \<Longrightarrow> mset (map offer_id res) + mset ids' = mset (map offer_id acc) + mset ids"
proof (induction ws arbitrary: acc ids)
  case Nil
  then show ?case by simp
next
  case (Cons w ws)
  show ?case
  proof (cases "sku_of w \<in> set ids")
    case False
    with Cons show ?thesis by simp
  next
    case True
    with Cons.prems obtain q where q: "quantity_of w = Inr q"
      by (cases "quantity_of w") auto
    with True Cons.prems
    have "stocks_loop ws (acc @ [\<lparr>offer_id = sku_of w, stock = q\<rparr>]) (remove1 (sku_of w) ids) = (Inr res, ids')"
      by simp
    from Cons.IH [OF this] True show ?thesis by simp
  qed
qed

lemma stocks_loop_shape:
  "distinct ids \<Longrightarrow> stocks_loop ws acc ids = (Inr res, ids')
     \<Longrightarrow> ids' = filter (\<lambda>u. u \<notin> set (map sku_of ws)) ids
         \<and> (\<exists>new. res = acc @ new
               \<and> list_all2 is_stock_of (filter (\<lambda>w. sku_of w \<in> set ids) (first_rows ws)) new)"
proof (induction ws arbitrary: acc ids)
  case Nil
  then show ?case by simp
next
  case (Cons w ws)
  show ?case
  proof (cases "sku_of w \<in> set ids")
    case False
    with Cons.prems have run: "stocks_loop ws acc ids = (Inr res, ids')" by simp
    have f1: "filter (\<lambda>u. u \<notin> set (map sku_of (w # ws))) ids = filter (\<lambda>u. u \<notin> set (map sku_of ws)) ids"
      using False by (intro filter_cong) auto
    have f2: "filter (\<lambda>v. sku_of v \<in> set ids) (first_rows (w # ws))
                = filter (\<lambda>v. sku_of v \<in> set ids) (first_rows ws)"
      using False by (auto intro: filter_cong)
    from Cons.IH [OF Cons.prems(1) run] show ?thesis
      unfolding f1 f2 by simp
  next
    case True
    with Cons.prems obtain q where q: "quantity_of w = Inr q"
      by (cases "quantity_of w") auto
    let ?e = "\<lparr>offer_id = sku_of w, stock = q\<rparr>"
    let ?ids = "remove1 (sku_of w) ids"
    from q True Cons.prems have run: "stocks_loop ws (acc @ [?e]) ?ids = (Inr res, ids')" by simp
    from Cons.prems(1) have d: "distinct ?ids" by simp
    from Cons.prems(1) have rm: "?ids = filter (\<lambda>u. u \<noteq> sku_of w) ids"
      by (simp add: distinct_remove1_removeAll removeAll_filter_not_eq) metis
    from Cons.IH [OF d run] obtain new where
      ids': "ids' = filter (\<lambda>u. u \<notin> set (map sku_of ws)) ?ids"
      and res: "res = (acc @ [?e]) @ new"
      and rel: "list_all2 is_stock_of (filter (\<lambda>v. sku_of v \<in> set ?ids) (first_rows ws)) new"
      by blast
    have f1: "filter (\<lambda>u. u \<notin> set (map sku_of (w # ws))) ids = filter (\<lambda>u. u \<notin> set (map sku_of ws)) ?ids"
      unfolding rm by (auto intro: filter_cong)
    have f2: "filter (\<lambda>v. sku_of v \<in> set ids) (first_rows (w # ws))
                = w # filter (\<lambda>v. sku_of v \<in> set ?ids) (first_rows ws)"
      using True unfolding rm by (auto intro: filter_cong)
    have "is_stock_of w ?e" using q by (simp add: is_stock_of_def)
    with rel have "list_all2 is_stock_of (filter (\<lambda>v. sku_of v \<in> set ids) (first_rows (w # ws))) (?e # new)"
      unfolding f2 by simp
    with ids' res show ?thesis unfolding f1 by auto
  qed
qed

lemma stocks_loop_returns:
  "\<forall>w \<in> set ws. sku_of w \<in> set ids \<longrightarrow> (\<exists>q. quantity_of w = Inr q)
     \<Longrightarrow> \<exists>res ids'. stocks_loop ws acc ids = (Inr res, ids')"
proof (induction ws arbitrary: acc ids)
  case Nil
  then show ?case by simp
next
  case (Cons w ws)
  show ?case
  proof (cases "sku_of w \<in> set ids")
    case False
    with Cons show ?thesis by simp
  next
    case True
    with Cons.prems obtain q where q: "quantity_of w = Inr q" by auto
    have "\<forall>v \<in> set ws. sku_of v \<in> set (remove1 (sku_of w) ids) \<longrightarrow> (\<exists>q. quantity_of v = Inr q)"
      using Cons.prems by (auto dest: notin_set_remove1)
    from Cons.IH [OF this] q True show ?thesis by simp
  qed
qed

lemma stocks_loop_first_rows_ok:
  "stocks_loop ws acc ids = (Inr res, ids') \<Longrightarrow> w \<in> set (first_rows ws) \<Longrightarrow> sku_of w \<in> set ids
     \<Longrightarrow> \<exists>q. quantity_of w = Inr q"
proof (induction ws arbitrary: acc ids)
  case Nil
  then show ?case by simp
next
  case (Cons v vs)
  show ?case
  proof (cases "sku_of v \<in> set ids")
    case False
    with Cons.prems have run: "stocks_loop vs acc ids = (Inr res, ids')" by simp
    from False Cons.prems have "w \<in> set (first_rows vs)" by auto
    from Cons.IH [OF run this Cons.prems(3)] show ?thesis .
  next
    case True
    with Cons.prems obtain q where q: "quantity_of v = Inr q"
      by (cases "quantity_of v") auto
    show ?thesis
    proof (cases "w = v")
      case True
      with q show ?thesis by blast
    next
      case False
      with Cons.prems have w: "w \<in> set (first_rows vs)" "sku_of w \<noteq> sku_of v" by auto
      with Cons.prems(3) have "sku_of w \<in> set (remove1 (sku_of v) ids)" by simp
      moreover from q True Cons.prems
      have "stocks_loop vs (acc @ [\<lparr>offer_id = sku_of v, stock = q\<rparr>]) (remove1 (sku_of v) ids) = (Inr res, ids')"
        by simp
      ultimately show ?thesis using Cons.IH w(1) by blast
    qed
  qed
qed

lemma stocks_loop_error_source:
  "stocks_loop ws acc ids = (Inl e, ids') \<Longrightarrow> \<exists>w \<in> set ws. quantity_of w = Inl e"
proof (induction ws arbitrary: acc ids)
  case Nil
  then show ?case by simp
next
  case (Cons v vs)
  then show ?case
    by (cases "quantity_of v") (auto split: if_splits)
qed

lemma market_stocks_loop_conv:
  "market_stocks_loop ws (map (to_market_stock wh d) acc) ids wh d
     = (map_sum id (map (to_market_stock wh d)) (fst (stocks_loop ws acc ids)),
        snd (stocks_loop ws acc ids))"
proof (induction ws arbitrary: acc ids)
  case Nil
  then show ?case by simp
next
  case (Cons w ws)
  show ?case
  proof (cases "sku_of w \<in> set ids")
    case False
    with Cons show ?thesis by simp
  next
    case True
    show ?thesis
    proof (cases "quantity_of w")
      case (Inl e)
      with True show ?thesis by simp
    next
      case (Inr q)
      have "map (to_market_stock wh d) acc @
              [\<lparr>sku = sku_of w, warehouseId = wh,
                items = [\<lparr>item_count = q, item_type = ''FIT'', updatedAt = d\<rparr>]\<rparr>]
            = map (to_market_stock wh d) (acc @ [\<lparr>offer_id = sku_of w, stock = q\<rparr>])"
        by (simp add: to_market_stock_def)
      with Inr True Cons.IH [of "acc @ [\<lparr>offer_id = sku_of w, stock = q\<rparr>]" "remove1 (sku_of w) ids"]
      show ?thesis by simp
    qed
  qed
qed

lemma market_create_stocks_conv:
  "market_create_stocks S U wh d
     = (map_sum id (map (to_market_stock wh d)) (fst (create_stocks S U)), snd (create_stocks S U))"
proof -
  have "market_stocks_loop S [] U wh d
     = (map_sum id (map (to_market_stock wh d)) (fst (stocks_loop S [] U)), snd (stocks_loop S [] U))"
    using market_stocks_loop_conv [of S wh d "[]" U] by simp
  then show ?thesis
    by (cases "stocks_loop S [] U"; cases "fst (stocks_loop S [] U)")
       (auto simp: market_create_stocks_def create_stocks_def to_market_stock_def)
qed

lemma create_stocks_shape:
  assumes "distinct U" and "create_stocks S U = (Inr res, U')"
  shows "U' = unmatched_ids S U"
    and "list_all2 is_stock_of (matched_rows S U) (take (length (matched_rows S U)) res)"
    and "drop (length (matched_rows S U)) res
           = map (\<lambda>u. \<lparr>offer_id = u, stock = 0\<rparr>) (unmatched_ids S U)"
proof -
  from assms(2) obtain stocks where run: "stocks_loop S [] U = (Inr stocks, U')"
    and res: "res = stocks @ map (\<lambda>oid. \<lparr>offer_id = oid, stock = 0\<rparr>) U'"
    by (auto simp: create_stocks_def split: prod.splits sum.splits)
  from stocks_loop_shape [OF assms(1) run]
  have u: "U' = unmatched_ids S U" and rel: "list_all2 is_stock_of (matched_rows S U) stocks"
    by (auto simp: unmatched_ids_def matched_rows_def)
  from rel have len: "length (matched_rows S U) = length stocks" by (rule list_all2_lengthD)
  show "U' = unmatched_ids S U" by (rule u)
  show "list_all2 is_stock_of (matched_rows S U) (take (length (matched_rows S U)) res)"
    using rel len res by simp
  show "drop (length (matched_rows S U)) res
           = map (\<lambda>u. \<lparr>offer_id = u, stock = 0\<rparr>) (unmatched_ids S U)"
    using len res u by simp
qed

lemma create_stocks_mset:
  assumes "create_stocks S U = (Inr res, U')"
  shows "mset (map offer_id res) = mset U"
proof -
  from assms obtain stocks where run: "stocks_loop S [] U = (Inr stocks, U')"
    and res: "res = stocks @ map (\<lambda>oid. \<lparr>offer_id = oid, stock = 0\<rparr>) U'"
    by (auto simp: create_stocks_def split: prod.splits sum.splits)
  have "map offer_id (map (\<lambda>oid. \<lparr>offer_id = oid, stock = 0\<rparr>) U') = U'"
    by (induction U') auto
  with stocks_loop_mset [OF run] res show ?thesis by simp
qed

lemma create_stocks_returns:
  assumes "\<forall>w \<in> set S. sku_of w \<in> set U \<longrightarrow> (\<exists>q. quantity_of w = Inr q)"
  shows "\<exists>res U'. create_stocks S U = (Inr res, U')"
  using stocks_loop_returns [OF assms, of "[]"] by (auto simp: create_stocks_def)

lemma mset_ids_facts:
  assumes "mset xs = mset U"
  shows "length xs = length U" and "set xs = set U" and "distinct U \<Longrightarrow> distinct xs"
  using assms mset_eq_length mset_eq_setD mset_eq_imp_distinct_iff by blast+

lemma list_all2_to_market:
  "list_all2 is_stock_of ws es
     \<Longrightarrow> list_all2 (is_market_stock_of wh d) ws (map (to_market_stock wh d) es)"
  by (induction rule: list_all2_induct)
     (auto simp: is_stock_of_def is_market_stock_of_def to_market_stock_def split: sum.splits)

lemma int_of_str_error: "int_of_str t = Inl e \<Longrightarrow> e = ValueError"
  by (auto simp: int_of_str_def Let_def split: option.splits)

lemma quantity_str_error: "normalize_quantity (PyStr t) = Inl e \<Longrightarrow> e = ValueError"
  by (auto simp: normalize_quantity_def dest: int_of_str_error split: if_splits)

lemma create_stocks_error_source:
  "fst (create_stocks S U) = Inl e \<Longrightarrow> \<exists>w \<in> set S. quantity_of w = Inl e"
proof -
  assume a: "fst (create_stocks S U) = Inl e"
  obtain r ids where run: "stocks_loop S [] U = (r, ids)" by (cases "stocks_loop S [] U")
  with a have "r = Inl e" by (cases r) (auto simp: create_stocks_def)
  with run stocks_loop_error_source show ?thesis by blast
qed

lemma create_stocks_first_rows_ok:
  assumes "fst (create_stocks S U) = Inr res" and "w \<in> set (first_rows S)" and "sku_of w \<in> set U"
  shows "\<exists>q. quantity_of w = Inr q"
proof -
  obtain r ids where run: "stocks_loop S [] U = (r, ids)" by (cases "stocks_loop S [] U")
  with assms(1) obtain stocks where "r = Inr stocks" by (cases r) (auto simp: create_stocks_def)
  with run stocks_loop_first_rows_ok [OF _ assms(2,3)] show ?thesis by blast
qed

text \<open>
  Claim C1. For every feed \<open>S\<close>, every duplicate-free offer universe \<open>U\<close> and any
  warehouse id, stock reconciliation returns exactly one update per member of \<open>U\<close>: the
  list is as long as \<open>U\<close>, its offer identifiers are the members of \<open>U\<close> without
  duplicates, the supplier-matched entries come first, in feed order, each with the
  normalised quantity of its row, and the unmatched members of \<open>U\<close> follow with quantity
  0, in universe order. The call returns whenever every row with a SKU in \<open>U\<close> has a
  convertible quantity. Both payload formats are covered.
\<close>

theorem create_stocks_one_entry_per_offer:
  assumes "distinct U"
  shows "((\<forall>w \<in> set S. sku_of w \<in> set U \<longrightarrow> (\<exists>q. quantity_of w = Inr q))
            \<longrightarrow> (\<exists>res U'. create_stocks S U = (Inr res, U'))
               \<and> (\<exists>res U'. market_create_stocks S U wh d = (Inr res, U')))
       \<and> (\<forall>res U'. create_stocks S U = (Inr res, U') \<longrightarrow>
            length res = length U
            \<and> set (map offer_id res) = set U
            \<and> distinct (map offer_id res)
            \<and> list_all2 is_stock_of (matched_rows S U) (take (length (matched_rows S U)) res)
            \<and> drop (length (matched_rows S U)) res
                = map (\<lambda>u. \<lparr>offer_id = u, stock = 0\<rparr>) (unmatched_ids S U))
       \<and> (\<forall>res U'. market_create_stocks S U wh d = (Inr res, U') \<longrightarrow>
            length res = length U
            \<and> set (map sku res) = set U
            \<and> distinct (map sku res)
            \<and> list_all2 (is_market_stock_of wh d) (matched_rows S U)
                 (take (length (matched_rows S U)) res)
            \<and> drop (length (matched_rows S U)) res
                = map (\<lambda>u. \<lparr>sku = u, warehouseId = wh,
                          items = [\<lparr>item_count = 0, item_type = ''FIT'', updatedAt = d\<rparr>]\<rparr>)
                    (unmatched_ids S U))"
proof (intro conjI allI impI)
  assume ok: "\<forall>w \<in> set S. sku_of w \<in> set U \<longrightarrow> (\<exists>q. quantity_of w = Inr q)"
  from create_stocks_returns [OF ok]
  show "\<exists>res U'. create_stocks S U = (Inr res, U')" .
  then obtain res U' where "create_stocks S U = (Inr res, U')" by blast
  then show "\<exists>res U'. market_create_stocks S U wh d = (Inr res, U')"
    by (simp add: market_create_stocks_conv)
next
  fix res U'
  assume run: "create_stocks S U = (Inr res, U')"
  note m = mset_ids_facts [OF create_stocks_mset [OF run]]
  show "length res = length U" using m(1) by simp
  show "set (map offer_id res) = set U" by (rule m(2))
  show "distinct (map offer_id res)" by (rule m(3) [OF assms])
  show "list_all2 is_stock_of (matched_rows S U) (take (length (matched_rows S U)) res)"
    by (rule create_stocks_shape(2) [OF assms run])
  show "drop (length (matched_rows S U)) res
          = map (\<lambda>u. \<lparr>offer_id = u, stock = 0\<rparr>) (unmatched_ids S U)"
    by (rule create_stocks_shape(3) [OF assms run])
next
  fix mres U'
  assume mrun: "market_create_stocks S U wh d = (Inr mres, U')"
  then obtain res where run: "create_stocks S U = (Inr res, U')"
    and mres: "mres = map (to_market_stock wh d) res"
    by (cases "create_stocks S U"; cases "fst (create_stocks S U)")
       (auto simp: market_create_stocks_conv)
  have sk: "map sku mres = map offer_id res"
    unfolding mres by (simp add: to_market_stock_def)
  note m = mset_ids_facts [OF create_stocks_mset [OF run]]
  show "length mres = length U" using m(1) mres by simp
  show "set (map sku mres) = set U" unfolding sk by (rule m(2))
  show "distinct (map sku mres)" unfolding sk by (rule m(3) [OF assms])
  show "list_all2 (is_market_stock_of wh d) (matched_rows S U)
          (take (length (matched_rows S U)) mres)"
    using list_all2_to_market [OF create_stocks_shape(2) [OF assms run], of wh d]
    by (simp add: mres take_map)
  show "drop (length (matched_rows S U)) mres
          = map (\<lambda>u. \<lparr>sku = u, warehouseId = wh,
                    items = [\<lparr>item_count = 0, item_type = ''FIT'', updatedAt = d\<rparr>]\<rparr>)
              (unmatched_ids S U)"
    using arg_cong [OF create_stocks_shape(3) [OF assms run], of "map (to_market_stock wh d)"]
    by (simp add: mres drop_map to_market_stock_def comp_def)
qed

theorem create_stocks_one_entry_per_offer_witness:
  "distinct [''B'', ''A'']
   \<and> quantity_of (watch_dict (PyStr ''A'') (PyStr ''5'') (PyStr ''100'')) = Inr 5
   \<and> sku_of (watch_dict (PyStr ''C'') (PyStr ''>10'') (PyStr ''7'')) \<notin> set [''B'', ''A'']
   \<and> create_stocks [watch_dict (PyStr ''A'') (PyStr ''5'') (PyStr ''100''),
                    watch_dict (PyStr ''C'') (PyStr ''>10'') (PyStr ''7'')] [''B'', ''A'']
       = (Inr [\<lparr>offer_id = ''A'', stock = 5\<rparr>, \<lparr>offer_id = ''B'', stock = 0\<rparr>], [''B''])
   \<and> (\<exists>res U'. create_stocks [watch_dict (PyStr ''A'') (PyStr ''5'') (PyStr ''100''),
                    watch_dict (PyStr ''C'') (PyStr ''>10'') (PyStr ''7'')] [''B'', ''A''] = (Inr res, U')
         \<and> length res = 2 \<and> set (map offer_id res) = {''A'', ''B''} \<and> distinct (map offer_id res))
   \<and> (\<exists>res U'. market_create_stocks [watch_dict (PyStr ''A'') (PyStr ''5'') (PyStr ''100''),
                    watch_dict (PyStr ''C'') (PyStr ''>10'') (PyStr ''7'')] [''B'', ''A'']
                    ''WH1'' ''2024-01-01T00:00:00Z'' = (Inr res, U')
         \<and> length res = 2 \<and> set (map sku res) = {''A'', ''B''} \<and> distinct (map sku res))"
proof -
  let ?S = "[watch_dict (PyStr ''A'') (PyStr ''5'') (PyStr ''100''),
             watch_dict (PyStr ''C'') (PyStr ''>10'') (PyStr ''7'')]"
  let ?U = "[''B'', ''A'']"
  have d: "distinct ?U" by simp
  have q: "quantity_of (watch_dict (PyStr ''A'') (PyStr ''5'') (PyStr ''100'')) = Inr 5"
    by (simp add: eval_defs)
  have c: "sku_of (watch_dict (PyStr ''C'') (PyStr ''>10'') (PyStr ''7'')) \<notin> set ?U"
    by (simp add: eval_defs)
  from q c have ok: "\<forall>w \<in> set ?S. sku_of w \<in> set ?U \<longrightarrow> (\<exists>q. quantity_of w = Inr q)"
    by simp
  have run: "create_stocks ?S ?U
       = (Inr [\<lparr>offer_id = ''A'', stock = 5\<rparr>, \<lparr>offer_id = ''B'', stock = 0\<rparr>], [''B''])"
    by (simp add: create_stocks_def eval_defs)
  have su: "set ?U = {''A'', ''B''}" and lu: "length ?U = 2" by auto
  note t = create_stocks_one_entry_per_offer [OF d, of ?S "''WH1''" "''2024-01-01T00:00:00Z''"]
  from t ok obtain mres mU where
    mrun: "market_create_stocks ?S ?U ''WH1'' ''2024-01-01T00:00:00Z'' = (Inr mres, mU)"
    by blast
  from t run
  have "length [\<lparr>offer_id = ''A'', stock = 5\<rparr>, \<lparr>offer_id = ''B'', stock = 0\<rparr>] = length ?U
      \<and> set (map offer_id [\<lparr>offer_id = ''A'', stock = 5\<rparr>, \<lparr>offer_id = ''B'', stock = 0\<rparr>]) = set ?U
      \<and> distinct (map offer_id [\<lparr>offer_id = ''A'', stock = 5\<rparr>, \<lparr>offer_id = ''B'', stock = 0\<rparr>])"
    by blast
  then have s1: "length [\<lparr>offer_id = ''A'', stock = 5\<rparr>, \<lparr>offer_id = ''B'', stock = 0\<rparr>] = 2
      \<and> set (map offer_id [\<lparr>offer_id = ''A'', stock = 5\<rparr>, \<lparr>offer_id = ''B'', stock = 0\<rparr>]) = {''A'', ''B''}
      \<and> distinct (map offer_id [\<lparr>offer_id = ''A'', stock = 5\<rparr>, \<lparr>offer_id = ''B'', stock = 0\<rparr>])"
    unfolding su lu .
  from t mrun
  have "length mres = length ?U \<and> set (map sku mres) = set ?U \<and> distinct (map sku mres)"
    by blast
  then have s2: "length mres = 2 \<and> set (map sku mres) = {''A'', ''B''} \<and> distinct (map sku mres)"
    unfolding su lu .
  from run s1
  have e1: "\<exists>res U'. create_stocks ?S ?U = (Inr res, U')
         \<and> length res = 2 \<and> set (map offer_id res) = {''A'', ''B''} \<and> distinct (map offer_id res)"
    by blast
  from mrun s2
  have e2: "\<exists>res U'. market_create_stocks ?S ?U ''WH1'' ''2024-01-01T00:00:00Z'' = (Inr res, U')
         \<and> length res = 2 \<and> set (map sku res) = {''A'', ''B''} \<and> distinct (map sku res)"
    by blast
  from d q c run e1 e2 show ?thesis by (intro conjI)
qed

text \<open>
  Claim C4, as amended. If a feed row that is the first row of its SKU, with that SKU in
  the offer universe, carries an ASCII string quantity token that is neither \<open>>10\<close> nor
  \<open>1\<close> nor integer-parseable, stock reconciliation fails as a whole: an exception is returned in
  place of the update list, in either payload format, and when every quantity token of
  the feed is a string the exception is \<open>ValueError\<close>. There is no skip-and-continue.
\<close>

theorem create_stocks_fails_on_bad_quantity:
  assumes "w \<in> set (first_rows S)" and "sku_of w \<in> set U"
    and "py_get w key_quantity = PyStr s" and "is_ascii s"
    and "s \<noteq> ''>10''" and "s \<noteq> ''1''" and "int_of_str s = Inl ValueError"
  shows "(\<exists>e. fst (create_stocks S U) = Inl e)
       \<and> (\<exists>e. fst (market_create_stocks S U wh d) = Inl e)
       \<and> ((\<forall>v \<in> set S. \<exists>t. py_get v key_quantity = PyStr t)
            \<longrightarrow> fst (create_stocks S U) = Inl ValueError
              \<and> fst (market_create_stocks S U wh d) = Inl ValueError)"
proof -
  have bad: "quantity_of w = Inl ValueError"
    using assms(3,5,6,7) by (simp add: normalize_quantity_def)
  have fails: "\<exists>e. fst (create_stocks S U) = Inl e"
  proof (cases "fst (create_stocks S U)")
    case (Inl e)
    then show ?thesis by blast
  next
    case (Inr res)
    from create_stocks_first_rows_ok [OF Inr assms(1,2)] bad show ?thesis by simp
  qed
  then obtain e where e: "fst (create_stocks S U) = Inl e" by blast
  then have m: "fst (market_create_stocks S U wh d) = Inl e"
    by (simp add: market_create_stocks_conv)
  have "e = ValueError" if "\<forall>v \<in> set S. \<exists>t. py_get v key_quantity = PyStr t"
  proof -
    from create_stocks_error_source [OF e] obtain v where "v \<in> set S" "quantity_of v = Inl e"
      by blast
    with that quantity_str_error show ?thesis by metis
  qed
  with e m show ?thesis by blast
qed

theorem create_stocks_fails_on_bad_quantity_witness:
  "watch_dict (PyStr ''A'') (PyStr ''abc'') (PyStr ''100'')
      \<in> set (first_rows [watch_dict (PyStr ''B'') (PyStr ''5'') (PyStr ''100''),
                          watch_dict (PyStr ''A'') (PyStr ''abc'') (PyStr ''100'')])
   \<and> sku_of (watch_dict (PyStr ''A'') (PyStr ''abc'') (PyStr ''100'')) \<in> set [''A'', ''B'']
   \<and> py_get (watch_dict (PyStr ''A'') (PyStr ''abc'') (PyStr ''100'')) key_quantity = PyStr ''abc''
   \<and> is_ascii ''abc''
   \<and> ''abc'' \<noteq> ''>10'' \<and> ''abc'' \<noteq> ''1'' \<and> int_of_str ''abc'' = Inl ValueError
   \<and> fst (create_stocks [watch_dict (PyStr ''B'') (PyStr ''5'') (PyStr ''100''),
                         watch_dict (PyStr ''A'') (PyStr ''abc'') (PyStr ''100'')] [''A'', ''B''])
       = Inl ValueError
   \<and> fst (market_create_stocks [watch_dict (PyStr ''B'') (PyStr ''5'') (PyStr ''100''),
                         watch_dict (PyStr ''A'') (PyStr ''abc'') (PyStr ''100'')] [''A'', ''B'']
            ''WH1'' ''2024-01-01T00:00:00Z'')
       = Inl ValueError"
proof -
  let ?w = "watch_dict (PyStr ''A'') (PyStr ''abc'') (PyStr ''100'')"
  let ?S = "[watch_dict (PyStr ''B'') (PyStr ''5'') (PyStr ''100''), ?w]"
  have h1: "?w \<in> set (first_rows ?S)" by (simp add: eval_defs)
  have h2: "sku_of ?w \<in> set [''A'', ''B'']" by (simp add: eval_defs)
  have h3: "py_get ?w key_quantity = PyStr ''abc''" by (simp add: eval_defs)
  have ha: "is_ascii ''abc''" by (simp add: is_ascii_def)
  have h4: "''abc'' \<noteq> ''>10''" and h5: "''abc'' \<noteq> ''1''" by simp_all
  have h6: "int_of_str ''abc'' = Inl ValueError" by (simp add: eval_defs)
  have all_str: "\<forall>v \<in> set ?S. \<exists>t. py_get v key_quantity = PyStr t" by (simp add: eval_defs)
  from create_stocks_fails_on_bad_quantity [OF h1 h2 h3 ha h4 h5 h6, of "''WH1''" "''2024-01-01T00:00:00Z''"]
    all_str
  have "fst (create_stocks ?S [''A'', ''B'']) = Inl ValueError
      \<and> fst (market_create_stocks ?S [''A'', ''B''] ''WH1'' ''2024-01-01T00:00:00Z'') = Inl ValueError"
    by blast
  with h1 h2 h3 ha h4 h5 h6 show ?thesis by blast
qed

text \<open>
  The claim as stated speaks of any record whose SKU is in the offer universe and of the
  string form of a token of any type. A later row of an already matched SKU is never
  looked at, so its malformed token does not make the call fail; and a token that is not
  a string is converted itself, so \<open>True\<close>, whose string form does not parse, gives 1.
\<close>

theorem create_stocks_duplicate_row_counterexample:
  "sku_of (watch_dict (PyStr ''A'') (PyStr ''abc'') (PyStr ''100'')) \<in> set [''A'']
   \<and> py_str (py_get (watch_dict (PyStr ''A'') (PyStr ''abc'') (PyStr ''100'')) key_quantity) \<noteq> ''>10''
   \<and> py_str (py_get (watch_dict (PyStr ''A'') (PyStr ''abc'') (PyStr ''100'')) key_quantity) \<noteq> ''1''
   \<and> int_of_str (py_str (py_get (watch_dict (PyStr ''A'') (PyStr ''abc'') (PyStr ''100'')) key_quantity))
        = Inl ValueError
   \<and> fst (create_stocks [watch_dict (PyStr ''A'') (PyStr ''5'') (PyStr ''100''),
                         watch_dict (PyStr ''A'') (PyStr ''abc'') (PyStr ''100'')] [''A''])
        = Inr [\<lparr>offer_id = ''A'', stock = 5\<rparr>]
   \<and> sku_of (watch_dict (PyStr ''A'') (PyBool True) (PyStr ''100'')) \<in> set [''A'']
   \<and> py_str (py_get (watch_dict (PyStr ''A'') (PyBool True) (PyStr ''100'')) key_quantity) \<noteq> ''>10''
   \<and> py_str (py_get (watch_dict (PyStr ''A'') (PyBool True) (PyStr ''100'')) key_quantity) \<noteq> ''1''
   \<and> int_of_str (py_str (py_get (watch_dict (PyStr ''A'') (PyBool True) (PyStr ''100'')) key_quantity))
        = Inl ValueError
   \<and> fst (create_stocks [watch_dict (PyStr ''A'') (PyBool True) (PyStr ''100'')] [''A''])
        = Inr [\<lparr>offer_id = ''A'', stock = 1\<rparr>]"
  by (simp add: create_stocks_def eval_defs)

text \<open>
  Claim C2 says that the caller's \<open>offer_ids\<close> list is unchanged after the call. On the
  feed with one row for SKU \<open>A\<close> and the universe \<open>[A]\<close> the list is empty afterwards,
  in both modules.
\<close>

theorem create_stocks_mutates_offer_ids:
  "create_stocks [watch_dict (PyStr ''A'') (PyStr ''5'') (PyStr ''100'')] [''A'']
     = (Inr [\<lparr>offer_id = ''A'', stock = 5\<rparr>], [])
   \<and> snd (create_stocks [watch_dict (PyStr ''A'') (PyStr ''5'') (PyStr ''100'')] [''A'']) \<noteq> [''A'']
   \<and> snd (market_create_stocks [watch_dict (PyStr ''A'') (PyStr ''5'') (PyStr ''100'')] [''A'']
             ''WH1'' ''2024-01-01T00:00:00Z'') \<noteq> [''A'']"
  by (simp add: create_stocks_def market_create_stocks_def eval_defs)

text \<open>
  Claim C8 says that a second call with the same arguments returns the same list. The
  second call receives the list object the first call has emptied: the first call
  returns the update for \<open>A\<close>, the second the empty list.
\<close>

theorem create_stocks_second_call_differs:
  "fst (create_stocks [watch_dict (PyStr ''A'') (PyStr ''5'') (PyStr ''100'')] [''A''])
     = Inr [\<lparr>offer_id = ''A'', stock = 5\<rparr>]
   \<and> fst (create_stocks [watch_dict (PyStr ''A'') (PyStr ''5'') (PyStr ''100'')]
            (snd (create_stocks [watch_dict (PyStr ''A'') (PyStr ''5'') (PyStr ''100'')] [''A''])))
     = Inr []"
  by (simp add: create_stocks_def eval_defs)

section \<open>Price reconciliation: properties\<close>

lemma prices_loop_shape:
  "prices_loop ws acc ids = Inr res
     \<Longrightarrow> \<exists>new. res = acc @ new \<and> list_all2 is_price_of (filter (\<lambda>w. sku_of w \<in> set ids) ws) new"
proof (induction ws arbitrary: acc)
  case Nil
  then show ?case by simp
next
  case (Cons w ws)
  show ?case
  proof (cases "sku_of w \<in> set ids")
    case False
    with Cons show ?thesis by simp
  next
    case True
    with Cons.prems obtain digits where dg: "price_conversion (py_get w key_price) = Inr digits"
      by (cases "price_conversion (py_get w key_price)") auto
    let ?e = "\<lparr>p_auto_action_enabled = ''UNKNOWN'', p_currency_code = ''RUB'',
               p_offer_id = sku_of w, p_old_price = ''0'', p_price = digits\<rparr>"
    from dg True Cons.prems have "prices_loop ws (acc @ [?e]) ids = Inr res" by simp
    from Cons.IH [OF this] obtain new where
      "res = (acc @ [?e]) @ new" "list_all2 is_price_of (filter (\<lambda>w. sku_of w \<in> set ids) ws) new"
      by blast
    moreover have "is_price_of w ?e" using dg by (simp add: is_price_of_def)
    ultimately show ?thesis using True by auto
  qed
qed

lemma market_prices_loop_shape:
  "market_prices_loop ws acc ids = Inr res
     \<Longrightarrow> \<exists>new. res = acc @ new
           \<and> list_all2 is_market_price_of (filter (\<lambda>w. sku_of w \<in> set ids) ws) new"
proof (induction ws arbitrary: acc)
  case Nil
  then show ?case by simp
next
  case (Cons w ws)
  show ?case
  proof (cases "sku_of w \<in> set ids")
    case False
    with Cons show ?thesis by simp
  next
    case True
    with Cons.prems obtain digits where dg: "price_conversion (py_get w key_price) = Inr digits"
      by (cases "price_conversion (py_get w key_price)") auto
    with True Cons.prems obtain v where v: "int_of_str digits = Inr v"
      by (cases "int_of_str digits") auto
    let ?e = "\<lparr>m_id = sku_of w, m_price = \<lparr>price_value = v, currencyId = ''RUR''\<rparr>\<rparr>"
    from dg v True Cons.prems have "market_prices_loop ws (acc @ [?e]) ids = Inr res" by simp
    from Cons.IH [OF this] obtain new where
      "res = (acc @ [?e]) @ new"
      "list_all2 is_market_price_of (filter (\<lambda>w. sku_of w \<in> set ids) ws) new"
      by blast
    moreover have "is_market_price_of w ?e" using dg v by (simp add: is_market_price_of_def)
    ultimately show ?thesis using True by auto
  qed
qed

lemma prices_loop_returns:
  "\<forall>w \<in> set ws. sku_of w \<in> set ids \<longrightarrow> (\<exists>p. py_get w key_price = PyStr p)
     \<Longrightarrow> \<exists>res. prices_loop ws acc ids = Inr res"
proof (induction ws arbitrary: acc)
  case Nil
  then show ?case by simp
next
  case (Cons w ws)
  show ?case
  proof (cases "sku_of w \<in> set ids")
    case False
    with Cons show ?thesis by simp
  next
    case True
    with Cons.prems obtain p where "py_get w key_price = PyStr p" by auto
    then have "price_conversion (py_get w key_price) = Inr (filter is_digit (takeWhile (\<lambda>c. c \<noteq> CHR ''.'') p))"
      by (simp add: price_conversion_str)
    with True Cons show ?thesis by simp
  qed
qed

lemma parse_body_all_digits: "\<forall>c \<in> set ds. is_digit c \<Longrightarrow> \<exists>v. parse_body acc ds = Some v"
  by (induction ds arbitrary: acc) auto

lemma int_of_str_digits:
  assumes "ds \<noteq> []" and "\<forall>c \<in> set ds. is_digit c"
  shows "\<exists>v. int_of_str ds = Inr v"
proof -
  from assms obtain c cs where eq: "ds = c # cs" by (cases ds) auto
  with assms have c: "is_digit c" by simp
  from assms have "is_digit (hd ds)" "is_digit (last ds)" by simp_all
  with assms(1) have st: "strip ds = ds" by (intro strip_id) (simp_all add: is_digit_not_space)
  from parse_body_all_digits [OF assms(2)] obtain v where "parse_body 0 ds = Some v" by blast
  with eq c have "parse_unsigned ds = Some v" by (simp add: parse_unsigned_def)
  with st eq c is_digit_not_space [OF c] show ?thesis
    by (simp add: int_of_str_def)
qed

lemma market_prices_loop_returns:
  "\<forall>w \<in> set ws. sku_of w \<in> set ids \<longrightarrow>
      (\<exists>p. py_get w key_price = PyStr p \<and> (\<exists>c \<in> set (takeWhile (\<lambda>c. c \<noteq> CHR ''.'') p). is_digit c))
     \<Longrightarrow> \<exists>res. market_prices_loop ws acc ids = Inr res"
proof (induction ws arbitrary: acc)
  case Nil
  then show ?case by simp
next
  case (Cons w ws)
  show ?case
  proof (cases "sku_of w \<in> set ids")
    case False
    with Cons show ?thesis by simp
  next
    case True
    with Cons.prems obtain p where p: "py_get w key_price = PyStr p"
      and dg: "\<exists>c \<in> set (takeWhile (\<lambda>c. c \<noteq> CHR ''.'') p). is_digit c" by auto
    let ?d = "filter is_digit (takeWhile (\<lambda>c. c \<noteq> CHR ''.'') p)"
    from p have pc: "price_conversion (py_get w key_price) = Inr ?d"
      by (simp add: price_conversion_str)
    from dg have ne: "?d \<noteq> []" by (auto simp: filter_empty_conv)
    have "\<forall>c \<in> set ?d. is_digit c" by simp
    from int_of_str_digits [OF ne this] obtain v where v: "int_of_str ?d = Inr v" ..
    from Cons.prems have "\<forall>w \<in> set ws. sku_of w \<in> set ids \<longrightarrow>
      (\<exists>p. py_get w key_price = PyStr p \<and> (\<exists>c \<in> set (takeWhile (\<lambda>c. c \<noteq> CHR ''.'') p). is_digit c))"
      by simp
    from Cons.IH [OF this] pc v True show ?thesis by simp
  qed
qed

lemma market_prices_loop_ok:
  "market_prices_loop ws acc ids = Inr res \<Longrightarrow> w \<in> set ws \<Longrightarrow> sku_of w \<in> set ids
     \<Longrightarrow> \<exists>digits v. price_conversion (py_get w key_price) = Inr digits \<and> int_of_str digits = Inr v"
proof (induction ws arbitrary: acc)
  case Nil
  then show ?case by simp
next
  case (Cons x xs)
  show ?case
  proof (cases "sku_of x \<in> set ids")
    case False
    with Cons show ?thesis by auto
  next
    case True
    with Cons.prems obtain digits where dg: "price_conversion (py_get x key_price) = Inr digits"
      by (cases "price_conversion (py_get x key_price)") auto
    with True Cons.prems obtain v where v: "int_of_str digits = Inr v"
      by (cases "int_of_str digits") auto
    show ?thesis
    proof (cases "w = x")
      case True
      with dg v show ?thesis by blast
    next
      case False
      with Cons.prems have "w \<in> set xs" by simp
      moreover from dg v True Cons.prems
      have "market_prices_loop xs (acc @ [\<lparr>m_id = sku_of x, m_price = \<lparr>price_value = v, currencyId = ''RUR''\<rparr>\<rparr>]) ids = Inr res"
        by simp
      ultimately show ?thesis using Cons.IH Cons.prems(3) by blast
    qed
  qed
qed

lemma market_prices_loop_error_source:
  "market_prices_loop ws acc ids = Inl e
     \<Longrightarrow> \<exists>w \<in> set ws. sku_of w \<in> set ids
           \<and> (price_conversion (py_get w key_price) = Inl e
              \<or> (\<exists>digits. price_conversion (py_get w key_price) = Inr digits
                    \<and> int_of_str digits = Inl e))"
proof (induction ws arbitrary: acc)
  case Nil
  then show ?case by simp
next
  case (Cons x xs)
  show ?case
  proof (cases "sku_of x \<in> set ids")
    case False
    with Cons show ?thesis by auto
  next
    case True
    show ?thesis
    proof (cases "price_conversion (py_get x key_price)")
      case (Inl e')
      with True Cons.prems show ?thesis by auto
    next
      case (Inr digits)
      show ?thesis
      proof (cases "int_of_str digits")
        case (Inl e')
        with Inr True Cons.prems show ?thesis by auto
      next
        case (Inr v)
        with \<open>price_conversion (py_get x key_price) = Inr digits\<close> True Cons.prems
        have "market_prices_loop xs (acc @ [\<lparr>m_id = sku_of x, m_price = \<lparr>price_value = v, currencyId = ''RUR''\<rparr>\<rparr>]) ids = Inl e"
          by simp
        from Cons.IH [OF this] show ?thesis by auto
      qed
    qed
  qed
qed

lemma prices_loop_no_match:
  "\<forall>w \<in> set ws. sku_of w \<notin> set ids \<Longrightarrow> prices_loop ws acc ids = Inr acc"
  by (induction ws arbitrary: acc) auto

lemma list_all2_length_le_filter:
  "list_all2 R (filter P xs) ys \<Longrightarrow> length ys \<le> length xs"
  using list_all2_lengthD [of R "filter P xs" ys] length_filter_le [of P xs] by simp

lemma list_all2_price_ids:
  "list_all2 is_price_of ws es \<Longrightarrow> map p_offer_id es = map sku_of ws"
proof (induction rule: list_all2_induct)
  case Nil
  then show ?case by simp
next
  case (Cons w ws e es)
  from Cons(1) have "p_offer_id e = sku_of w"
    by (cases "price_conversion (py_get w key_price)") (simp_all add: is_price_of_def)
  with Cons show ?case by simp
qed

lemma list_all2_market_price_ids:
  "list_all2 is_market_price_of ws es \<Longrightarrow> map m_id es = map sku_of ws"
proof (induction rule: list_all2_induct)
  case Nil
  then show ?case by simp
next
  case (Cons w ws e es)
  from Cons(1) have "m_id e = sku_of w"
    by (auto simp: is_market_price_of_def split: sum.splits)
  with Cons show ?case by simp
qed

lemma int_of_str_empty: "int_of_str [] = Inl ValueError"
  by (simp add: int_of_str_def strip_def)

lemma list_all2_in_set:
  "list_all2 R xs ys \<Longrightarrow> x \<in> set xs \<Longrightarrow> \<exists>y \<in> set ys. R x y"
  by (induction rule: list_all2_induct) auto

text \<open>
  Claim C6. For every feed \<open>S\<close> and offer universe \<open>U\<close>, price reconciliation returns one
  price update, in feed order, for exactly the rows of \<open>S\<close> whose string-coerced SKU is a
  member of \<open>U\<close>. The universe is only read, so every row of a repeated SKU gives an
  entry; a universe member that is the SKU of no row gives none; the result is no longer
  than \<open>S\<close>. The Ozon variant returns whenever the matched rows carry string prices,
  the Yandex Market variant whenever each of them also has a digit before its first dot.
\<close>

theorem create_prices_one_entry_per_matched_row:
  "(\<forall>res. create_prices S U = Inr res \<longrightarrow>
       list_all2 is_price_of (filter (\<lambda>w. sku_of w \<in> set U) S) res
       \<and> map p_offer_id res = map sku_of (filter (\<lambda>w. sku_of w \<in> set U) S)
       \<and> length res \<le> length S)
   \<and> (\<forall>res. market_create_prices S U = Inr res \<longrightarrow>
       list_all2 is_market_price_of (filter (\<lambda>w. sku_of w \<in> set U) S) res
       \<and> map m_id res = map sku_of (filter (\<lambda>w. sku_of w \<in> set U) S)
       \<and> length res \<le> length S)
   \<and> ((\<forall>w \<in> set S. sku_of w \<in> set U \<longrightarrow> (\<exists>p. py_get w key_price = PyStr p))
         \<longrightarrow> (\<exists>res. create_prices S U = Inr res))
   \<and> ((\<forall>w \<in> set S. sku_of w \<in> set U \<longrightarrow>
           (\<exists>p. py_get w key_price = PyStr p
              \<and> (\<exists>c \<in> set (takeWhile (\<lambda>c. c \<noteq> CHR ''.'') p). is_digit c)))
         \<longrightarrow> (\<exists>res. market_create_prices S U = Inr res))"
proof (intro conjI allI impI)
  fix res
  assume "create_prices S U = Inr res"
  then have rel: "list_all2 is_price_of (filter (\<lambda>w. sku_of w \<in> set U) S) res"
    using prices_loop_shape [of S "[]" U res] by (simp add: create_prices_def)
  then show "list_all2 is_price_of (filter (\<lambda>w. sku_of w \<in> set U) S) res" .
  from rel show "map p_offer_id res = map sku_of (filter (\<lambda>w. sku_of w \<in> set U) S)"
    by (rule list_all2_price_ids)
  from rel show "length res \<le> length S" by (rule list_all2_length_le_filter)
next
  fix res
  assume "market_create_prices S U = Inr res"
  then have rel: "list_all2 is_market_price_of (filter (\<lambda>w. sku_of w \<in> set U) S) res"
    using market_prices_loop_shape [of S "[]" U res] by (simp add: market_create_prices_def)
  then show "list_all2 is_market_price_of (filter (\<lambda>w. sku_of w \<in> set U) S) res" .
  from rel show "map m_id res = map sku_of (filter (\<lambda>w. sku_of w \<in> set U) S)"
    by (rule list_all2_market_price_ids)
  from rel show "length res \<le> length S" by (rule list_all2_length_le_filter)
next
  assume "\<forall>w \<in> set S. sku_of w \<in> set U \<longrightarrow> (\<exists>p. py_get w key_price = PyStr p)"
  from prices_loop_returns [OF this, of "[]"]
  show "\<exists>res. create_prices S U = Inr res" by (simp add: create_prices_def)
next
  assume "\<forall>w \<in> set S. sku_of w \<in> set U \<longrightarrow>
           (\<exists>p. py_get w key_price = PyStr p
              \<and> (\<exists>c \<in> set (takeWhile (\<lambda>c. c \<noteq> CHR ''.'') p). is_digit c))"
  from market_prices_loop_returns [OF this, of "[]"]
  show "\<exists>res. market_create_prices S U = Inr res" by (simp add: market_create_prices_def)
qed

theorem create_prices_one_entry_per_matched_row_witness:
  "py_get (watch_dict (PyStr ''A'') (PyStr ''5'') (PyStr ''5990.00'')) key_price = PyStr ''5990.00''
   \<and> py_get (watch_dict (PyStr ''A'') (PyStr ''5'') (PyStr ''12'')) key_price = PyStr ''12''
   \<and> sku_of (watch_dict (PyStr ''C'') (PyStr ''5'') (PyStr ''10'')) \<notin> set [''A'', ''B'']
   \<and> create_prices [watch_dict (PyStr ''A'') (PyStr ''5'') (PyStr ''5990.00''),
                    watch_dict (PyStr ''C'') (PyStr ''5'') (PyStr ''10''),
                    watch_dict (PyStr ''A'') (PyStr ''5'') (PyStr ''12'')] [''A'', ''B'']
       = Inr [\<lparr>p_auto_action_enabled = ''UNKNOWN'', p_currency_code = ''RUB'', p_offer_id = ''A'',
               p_old_price = ''0'', p_price = ''5990''\<rparr>,
              \<lparr>p_auto_action_enabled = ''UNKNOWN'', p_currency_code = ''RUB'', p_offer_id = ''A'',
               p_old_price = ''0'', p_price = ''12''\<rparr>]
   \<and> market_create_prices [watch_dict (PyStr ''A'') (PyStr ''5'') (PyStr ''5990.00''),
                    watch_dict (PyStr ''C'') (PyStr ''5'') (PyStr ''10''),
                    watch_dict (PyStr ''A'') (PyStr ''5'') (PyStr ''12'')] [''A'', ''B'']
       = Inr [\<lparr>m_id = ''A'', m_price = \<lparr>price_value = 5990, currencyId = ''RUR''\<rparr>\<rparr>,
              \<lparr>m_id = ''A'', m_price = \<lparr>price_value = 12, currencyId = ''RUR''\<rparr>\<rparr>]
   \<and> (\<exists>res. create_prices [watch_dict (PyStr ''A'') (PyStr ''5'') (PyStr ''5990.00''),
                    watch_dict (PyStr ''C'') (PyStr ''5'') (PyStr ''10''),
                    watch_dict (PyStr ''A'') (PyStr ''5'') (PyStr ''12'')] [''A'', ''B''] = Inr res
         \<and> map p_offer_id res = [''A'', ''A''] \<and> length res \<le> 3)
   \<and> (\<exists>res. market_create_prices [watch_dict (PyStr ''A'') (PyStr ''5'') (PyStr ''5990.00''),
                    watch_dict (PyStr ''C'') (PyStr ''5'') (PyStr ''10''),
                    watch_dict (PyStr ''A'') (PyStr ''5'') (PyStr ''12'')] [''A'', ''B''] = Inr res
         \<and> map m_id res = [''A'', ''A''] \<and> length res \<le> 3)"
proof -
  let ?S = "[watch_dict (PyStr ''A'') (PyStr ''5'') (PyStr ''5990.00''),
             watch_dict (PyStr ''C'') (PyStr ''5'') (PyStr ''10''),
             watch_dict (PyStr ''A'') (PyStr ''5'') (PyStr ''12'')]"
  let ?U = "[''A'', ''B'']"
  have p1: "py_get (watch_dict (PyStr ''A'') (PyStr ''5'') (PyStr ''5990.00'')) key_price
              = PyStr ''5990.00''"
    by (simp add: eval_defs)
  have p2: "py_get (watch_dict (PyStr ''A'') (PyStr ''5'') (PyStr ''12'')) key_price = PyStr ''12''"
    by (simp add: eval_defs)
  have c: "sku_of (watch_dict (PyStr ''C'') (PyStr ''5'') (PyStr ''10'')) \<notin> set ?U"
    by (simp add: eval_defs)
  have d1: "\<exists>c \<in> set (takeWhile (\<lambda>c. c \<noteq> CHR ''.'') ''5990.00''). is_digit c"
    by (simp add: is_digit_def)
  have d2: "\<exists>c \<in> set (takeWhile (\<lambda>c. c \<noteq> CHR ''.'') ''12''). is_digit c"
    by (simp add: is_digit_def)
  from p1 p2 c d1 d2
  have ok: "\<forall>w \<in> set ?S. sku_of w \<in> set ?U \<longrightarrow>
         (\<exists>p. py_get w key_price = PyStr p
            \<and> (\<exists>c \<in> set (takeWhile (\<lambda>c. c \<noteq> CHR ''.'') p). is_digit c))"
    by simp
  have f: "filter (\<lambda>w. sku_of w \<in> set ?U) ?S
            = [watch_dict (PyStr ''A'') (PyStr ''5'') (PyStr ''5990.00''),
               watch_dict (PyStr ''A'') (PyStr ''5'') (PyStr ''12'')]"
    by (simp add: eval_defs)
  have sk: "map sku_of [watch_dict (PyStr ''A'') (PyStr ''5'') (PyStr ''5990.00''),
               watch_dict (PyStr ''A'') (PyStr ''5'') (PyStr ''12'')] = [''A'', ''A'']"
    by (simp add: eval_defs)
  have r1: "create_prices ?S ?U
       = Inr [\<lparr>p_auto_action_enabled = ''UNKNOWN'', p_currency_code = ''RUB'', p_offer_id = ''A'',
               p_old_price = ''0'', p_price = ''5990''\<rparr>,
              \<lparr>p_auto_action_enabled = ''UNKNOWN'', p_currency_code = ''RUB'', p_offer_id = ''A'',
               p_old_price = ''0'', p_price = ''12''\<rparr>]"
    by (simp add: create_prices_def eval_defs)
  have r2: "market_create_prices ?S ?U
       = Inr [\<lparr>m_id = ''A'', m_price = \<lparr>price_value = 5990, currencyId = ''RUR''\<rparr>\<rparr>,
              \<lparr>m_id = ''A'', m_price = \<lparr>price_value = 12, currencyId = ''RUR''\<rparr>\<rparr>]"
    by (simp add: market_create_prices_def eval_defs)
  have len: "length ?S = 3" by simp
  note t = create_prices_one_entry_per_matched_row [of ?S ?U]
  from t ok obtain mres where mrun: "market_create_prices ?S ?U = Inr mres" by blast
  from t [THEN conjunct1, rule_format, OF r1]
  have t1: "\<exists>res. create_prices ?S ?U = Inr res
           \<and> map p_offer_id res = [''A'', ''A''] \<and> length res \<le> 3"
    unfolding f sk len using r1 by (intro exI conjI) (elim conjE, assumption)+
  from t [THEN conjunct2, THEN conjunct1, rule_format, OF mrun]
  have t2: "\<exists>res. market_create_prices ?S ?U = Inr res
           \<and> map m_id res = [''A'', ''A''] \<and> length res \<le> 3"
    unfolding f sk len using mrun by (intro exI conjI) (elim conjE, assumption)+
  from p1 p2 c r1 r2 t1 t2 show ?thesis by (intro conjI)
qed

text \<open>
  Claim C10. In the Yandex Market variant of \<open>create_prices\<close> a matched row whose
  price string has no ASCII digit before its first dot makes the whole call fail: the
  digit string is empty and its integer conversion raises \<open>ValueError\<close> (this is the
  exception returned whenever the matched rows carry string prices). The Ozon variant
  returns on the same input and gives that row the empty string as its price.
\<close>

theorem market_create_prices_fails_without_digits:
  assumes "w \<in> set S" and "sku_of w \<in> set U" and "py_get w key_price = PyStr p"
    and "\<forall>c \<in> set (takeWhile (\<lambda>c. c \<noteq> CHR ''.'') p). \<not> is_digit c"
  shows "(\<exists>e. market_create_prices S U = Inl e)
       \<and> ((\<forall>v \<in> set S. sku_of v \<in> set U \<longrightarrow> (\<exists>q. py_get v key_price = PyStr q))
            \<longrightarrow> market_create_prices S U = Inl ValueError
              \<and> (\<exists>res. create_prices S U = Inr res
                    \<and> \<lparr>p_auto_action_enabled = ''UNKNOWN'', p_currency_code = ''RUB'',
                        p_offer_id = sku_of w, p_old_price = ''0'', p_price = ''''\<rparr> \<in> set res))"
proof -
  from assms(4) have "filter is_digit (takeWhile (\<lambda>c. c \<noteq> CHR ''.'') p) = []"
    by (simp add: filter_empty_conv)
  with assms(3) have pc: "price_conversion (py_get w key_price) = Inr []"
    by (simp add: price_conversion_str)
  have fails: "\<exists>e. market_create_prices S U = Inl e"
  proof (cases "market_create_prices S U")
    case (Inl e)
    then show ?thesis by blast
  next
    case (Inr res)
    then have "market_prices_loop S [] U = Inr res" by (simp add: market_create_prices_def)
    from market_prices_loop_ok [OF this assms(1,2)] pc show ?thesis
      by (simp add: int_of_str_empty)
  qed
  moreover have "market_create_prices S U = Inl ValueError
              \<and> (\<exists>res. create_prices S U = Inr res
                    \<and> \<lparr>p_auto_action_enabled = ''UNKNOWN'', p_currency_code = ''RUB'',
                        p_offer_id = sku_of w, p_old_price = ''0'', p_price = ''''\<rparr> \<in> set res)"
    if all_str: "\<forall>v \<in> set S. sku_of v \<in> set U \<longrightarrow> (\<exists>q. py_get v key_price = PyStr q)"
  proof
    from fails obtain e where e: "market_create_prices S U = Inl e" by blast
    then have "market_prices_loop S [] U = Inl e" by (simp add: market_create_prices_def)
    from market_prices_loop_error_source [OF this] obtain v where v: "v \<in> set S" "sku_of v \<in> set U"
      and src: "price_conversion (py_get v key_price) = Inl e
              \<or> (\<exists>digits. price_conversion (py_get v key_price) = Inr digits \<and> int_of_str digits = Inl e)"
      by blast
    from all_str v obtain q where "py_get v key_price = PyStr q" by blast
    then have "price_conversion (py_get v key_price)
                 = Inr (filter is_digit (takeWhile (\<lambda>c. c \<noteq> CHR ''.'') q))"
      by (simp add: price_conversion_str)
    with src have "e = ValueError" by (auto dest: int_of_str_error)
    with e show "market_create_prices S U = Inl ValueError" by simp
  next
    from prices_loop_returns [OF all_str, of "[]"] obtain res where res: "create_prices S U = Inr res"
      by (auto simp: create_prices_def)
    then have rel: "list_all2 is_price_of (filter (\<lambda>w. sku_of w \<in> set U) S) res"
      using prices_loop_shape [of S "[]" U res] by (simp add: create_prices_def)
    from assms(1,2) have mem: "w \<in> set (filter (\<lambda>w. sku_of w \<in> set U) S)" by simp
    from list_all2_in_set [OF rel mem] obtain y where y: "y \<in> set res" "is_price_of w y" ..
    from y(2) pc
    have "y = \<lparr>p_auto_action_enabled = ''UNKNOWN'', p_currency_code = ''RUB'',
                p_offer_id = sku_of w, p_old_price = ''0'', p_price = ''''\<rparr>"
      by (simp add: is_price_of_def)
    with y(1) have "\<lparr>p_auto_action_enabled = ''UNKNOWN'', p_currency_code = ''RUB'',
                p_offer_id = sku_of w, p_old_price = ''0'', p_price = ''''\<rparr> \<in> set res"
      by (simp only:)
    with res show "\<exists>res. create_prices S U = Inr res
                    \<and> \<lparr>p_auto_action_enabled = ''UNKNOWN'', p_currency_code = ''RUB'',
                        p_offer_id = sku_of w, p_old_price = ''0'', p_price = ''''\<rparr> \<in> set res"
      by (intro exI conjI)
  qed
  ultimately show ?thesis by blast
qed

theorem market_create_prices_fails_without_digits_witness:
  "watch_dict (PyStr ''A'') (PyStr ''5'') (PyStr ''n/a.00'')
      \<in> set [watch_dict (PyStr ''B'') (PyStr ''5'') (PyStr ''100''),
              watch_dict (PyStr ''A'') (PyStr ''5'') (PyStr ''n/a.00'')]
   \<and> sku_of (watch_dict (PyStr ''A'') (PyStr ''5'') (PyStr ''n/a.00'')) \<in> set [''A'', ''B'']
   \<and> py_get (watch_dict (PyStr ''A'') (PyStr ''5'') (PyStr ''n/a.00'')) key_price = PyStr ''n/a.00''
   \<and> filter is_digit (takeWhile (\<lambda>c. c \<noteq> CHR ''.'') ''n/a.00'') = []
   \<and> market_create_prices [watch_dict (PyStr ''B'') (PyStr ''5'') (PyStr ''100''),
                           watch_dict (PyStr ''A'') (PyStr ''5'') (PyStr ''n/a.00'')] [''A'', ''B'']
       = Inl ValueError
   \<and> create_prices [watch_dict (PyStr ''B'') (PyStr ''5'') (PyStr ''100''),
                    watch_dict (PyStr ''A'') (PyStr ''5'') (PyStr ''n/a.00'')] [''A'', ''B'']
       = Inr [\<lparr>p_auto_action_enabled = ''UNKNOWN'', p_currency_code = ''RUB'', p_offer_id = ''B'',
               p_old_price = ''0'', p_price = ''100''\<rparr>,
              \<lparr>p_auto_action_enabled = ''UNKNOWN'', p_currency_code = ''RUB'', p_offer_id = ''A'',
               p_old_price = ''0'', p_price = ''''\<rparr>]"
proof -
  let ?w = "watch_dict (PyStr ''A'') (PyStr ''5'') (PyStr ''n/a.00'')"
  let ?S = "[watch_dict (PyStr ''B'') (PyStr ''5'') (PyStr ''100''), ?w]"
  have h1: "?w \<in> set ?S" by simp
  have h2: "sku_of ?w \<in> set [''A'', ''B'']" by (simp add: eval_defs)
  have h3: "py_get ?w key_price = PyStr ''n/a.00''" by (simp add: eval_defs)
  have h4: "\<forall>c \<in> set (takeWhile (\<lambda>c. c \<noteq> CHR ''.'') ''n/a.00''). \<not> is_digit c"
    by (simp add: is_digit_def)
  have all_str: "\<forall>v \<in> set ?S. sku_of v \<in> set [''A'', ''B''] \<longrightarrow> (\<exists>q. py_get v key_price = PyStr q)"
    by (simp add: eval_defs)
  have r: "create_prices ?S [''A'', ''B'']
       = Inr [\<lparr>p_auto_action_enabled = ''UNKNOWN'', p_currency_code = ''RUB'', p_offer_id = ''B'',
               p_old_price = ''0'', p_price = ''100''\<rparr>,
              \<lparr>p_auto_action_enabled = ''UNKNOWN'', p_currency_code = ''RUB'', p_offer_id = ''A'',
               p_old_price = ''0'', p_price = ''''\<rparr>]"
    by (simp add: create_prices_def eval_defs)
  from market_create_prices_fails_without_digits [OF h1 h2 h3 h4] all_str
  have "market_create_prices ?S [''A'', ''B''] = Inl ValueError" by blast
  moreover have "filter is_digit (takeWhile (\<lambda>c. c \<noteq> CHR ''.'') ''n/a.00'') = []"
    by (simp add: is_digit_def)
  ultimately show ?thesis using h1 h2 h3 r by (intro conjI)
qed

section \<open>The main run of seller.py: properties\<close>

lemma unmatched_ids_no_sku: "w \<in> set S \<Longrightarrow> sku_of w \<notin> set (unmatched_ids S U)"
  by (simp add: unmatched_ids_def)

lemma create_prices_unmatched: "create_prices S (unmatched_ids S U) = Inr []"
  using prices_loop_no_match [of S "unmatched_ids S U" "[]"] unmatched_ids_no_sku [of _ S U]
  by (simp add: create_prices_def)

lemma divide_positive: "0 < n \<Longrightarrow> divide lst n = Inr (divide_from lst (nat n) 0)"
  by (simp add: divide_def)

lemma divide_from_empty: "divide_from [] n i = []"
  by (subst divide_from.simps) simp

text \<open>
  Claim C9. In \<open>main\<close> of seller.py the list bound to \<open>offer_ids\<close> is the one
  \<open>create_stocks\<close> has removed every matched identifier from, and that list goes to
  \<open>create_prices\<close>. When the fetched list has no duplicates, what is left holds the SKU
  of no feed row, so the prices computed in \<open>main\<close> are the empty list and nothing is
  pushed by the price loop.
\<close>

theorem main_prices_always_empty:
  assumes "distinct offer_ids"
  shows "(\<forall>stocks ids'. create_stocks S offer_ids = (Inr stocks, ids') \<longrightarrow>
            ids' = unmatched_ids S offer_ids
            \<and> create_prices S ids' = Inr []
            \<and> (\<exists>run. main_body offer_ids S = Inr run \<and> run_stocks run = stocks
                  \<and> run_prices run = [] \<and> run_price_batches run = []))
       \<and> (\<forall>run. main_body offer_ids S = Inr run \<longrightarrow>
            run_prices run = [] \<and> run_price_batches run = [])"
proof -
  have part1: "ids' = unmatched_ids S offer_ids
            \<and> create_prices S ids' = Inr []
            \<and> main_body offer_ids S
                = Inr \<lparr>run_stocks = stocks, run_stock_batches = divide_from stocks 100 0,
                       run_prices = [], run_price_batches = []\<rparr>"
    if run: "create_stocks S offer_ids = (Inr stocks, ids')" for stocks ids'
  proof -
    from create_stocks_shape(1) [OF assms run] have u: "ids' = unmatched_ids S offer_ids" .
    then have p: "create_prices S ids' = Inr []" by (simp add: create_prices_unmatched)
    have d1: "divide stocks 100 = Inr (divide_from stocks 100 0)"
      using divide_positive [of 100 stocks] by simp
    have d2: "divide ([] :: price_entry list) 900 = Inr []"
      using divide_positive [of 900 "[] :: price_entry list"] by (simp add: divide_from_empty)
    from run p d1 d2 have "main_body offer_ids S
                = Inr \<lparr>run_stocks = stocks, run_stock_batches = divide_from stocks 100 0,
                       run_prices = [], run_price_batches = []\<rparr>"
      by (simp add: main_body_def)
    with u p show ?thesis by (intro conjI)
  qed
  have part2: "run_prices run = [] \<and> run_price_batches run = []"
    if m: "main_body offer_ids S = Inr run" for run
  proof -
    obtain r ids' where cs: "create_stocks S offer_ids = (r, ids')"
      by (cases "create_stocks S offer_ids")
    show ?thesis
    proof (cases r)
      case (Inl e)
      with cs m show ?thesis by (simp add: main_body_def)
    next
      case (Inr stocks)
      with cs part1 [of stocks ids'] m show ?thesis by simp
    qed
  qed
  show ?thesis
  proof (intro conjI allI impI)
    fix stocks ids'
    assume run: "create_stocks S offer_ids = (Inr stocks, ids')"
    from part1 [OF run] show "ids' = unmatched_ids S offer_ids" by (rule conjunct1)
    from part1 [OF run] show "create_prices S ids' = Inr []" by (elim conjE)
    from part1 [OF run]
    have "main_body offer_ids S
                = Inr \<lparr>run_stocks = stocks, run_stock_batches = divide_from stocks 100 0,
                       run_prices = [], run_price_batches = []\<rparr>" by (elim conjE)
    then show "\<exists>run. main_body offer_ids S = Inr run \<and> run_stocks run = stocks
                  \<and> run_prices run = [] \<and> run_price_batches run = []" by simp
  next
    fix run
    assume "main_body offer_ids S = Inr run"
    from part2 [OF this] show "run_prices run = []" by (rule conjunct1)
  next
    fix run
    assume "main_body offer_ids S = Inr run"
    from part2 [OF this] show "run_price_batches run = []" by (rule conjunct2)
  qed
qed

theorem main_prices_always_empty_witness:
  "distinct [''A'', ''B'']
   \<and> create_stocks [watch_dict (PyStr ''A'') (PyStr ''5'') (PyStr ''5990.00'')] [''A'', ''B'']
       = (Inr [\<lparr>offer_id = ''A'', stock = 5\<rparr>, \<lparr>offer_id = ''B'', stock = 0\<rparr>], [''B''])
   \<and> create_prices [watch_dict (PyStr ''A'') (PyStr ''5'') (PyStr ''5990.00'')] [''B''] = Inr []
   \<and> create_prices [watch_dict (PyStr ''A'') (PyStr ''5'') (PyStr ''5990.00'')] [''A'', ''B'']
       = Inr [\<lparr>p_auto_action_enabled = ''UNKNOWN'', p_currency_code = ''RUB'', p_offer_id = ''A'',
               p_old_price = ''0'', p_price = ''5990''\<rparr>]
   \<and> (\<exists>run. main_body [''A'', ''B''] [watch_dict (PyStr ''A'') (PyStr ''5'') (PyStr ''5990.00'')]
                = Inr run
          \<and> run_stocks run = [\<lparr>offer_id = ''A'', stock = 5\<rparr>, \<lparr>offer_id = ''B'', stock = 0\<rparr>]
          \<and> run_prices run = [] \<and> run_price_batches run = [])"
proof -
  let ?S = "[watch_dict (PyStr ''A'') (PyStr ''5'') (PyStr ''5990.00'')]"
  let ?st = "[\<lparr>offer_id = ''A'', stock = 5\<rparr>, \<lparr>offer_id = ''B'', stock = 0\<rparr>]"
  have d: "distinct [''A'', ''B'']" by simp
  have run: "create_stocks ?S [''A'', ''B''] = (Inr ?st, [''B''])"
    by (simp add: create_stocks_def eval_defs)
  have pr: "create_prices ?S [''A'', ''B'']
       = Inr [\<lparr>p_auto_action_enabled = ''UNKNOWN'', p_currency_code = ''RUB'', p_offer_id = ''A'',
               p_old_price = ''0'', p_price = ''5990''\<rparr>]"
    by (simp add: create_prices_def eval_defs)
  from main_prices_always_empty [OF d, of ?S, THEN conjunct1, rule_format, OF run]
  have "create_prices ?S [''B''] = Inr []
      \<and> (\<exists>run. main_body [''A'', ''B''] ?S = Inr run \<and> run_stocks run = ?st
             \<and> run_prices run = [] \<and> run_price_batches run = [])"
    by (elim conjE) (intro conjI)
  with d run pr show ?thesis by (intro conjI) (elim conjE, assumption)+
qed

end
